theory Spec2Isabelle
  imports Complex_Main "HOL-Library.Sublist"
begin

section \<open>Characters\<close>

text \<open>
  The interpreter classifies characters with \<^verbatim>\<open>std::isdigit\<close>, \<^verbatim>\<open>std::isalpha\<close>,
  \<^verbatim>\<open>std::isalnum\<close> and \<^verbatim>\<open>std::isspace\<close>. They are modelled in the "C" locale, on bytes:
  a byte outside ASCII belongs to no class.
\<close>

abbreviation NUL :: char where "NUL \<equiv> CHR 0x00"
abbreviation newline :: char where "newline \<equiv> CHR 0x0A"
abbreviation dquote :: char where "dquote \<equiv> CHR 0x22"
abbreviation squote :: char where "squote \<equiv> CHR 0x27"
abbreviation backslash :: char where "backslash \<equiv> CHR 0x5C"

definition isdigit :: "char \<Rightarrow> bool" where
  "isdigit c = (c \<in> set ''0123456789'')"

definition isalpha :: "char \<Rightarrow> bool" where
  "isalpha c = (c \<in> set ''abcdefghijklmnopqrstuvwxyzABCDEFGHIJKLMNOPQRSTUVWXYZ'')"

definition isalnum :: "char \<Rightarrow> bool" where
  "isalnum c = (isalpha c \<or> isdigit c)"

definition isspace :: "char \<Rightarrow> bool" where
  "isspace c = (c \<in> {CHR '' '', CHR 0x09, CHR 0x0A, CHR 0x0B, CHR 0x0C, CHR 0x0D})"

section \<open>Tokens (lexer.h)\<close>

datatype TokenType =
    NUMBER | STRING | IDENTIFIER | F_STRING
  | PRINT | INPUT | IF | ELSE | FOR | WHILE | DEF | RETURN | TRUE | FALSE | NONE
  | WITH | AS
  | PLUS | MINUS | MULTIPLY | DIVIDE | MODULO
  | ASSIGN | EQUAL | NOT_EQUAL | LESS | GREATER
  | LPAREN | RPAREN | LBRACE | RBRACE | LBRACKET | RBRACKET
  | COMMA | DOT | COLON | SEMICOLON
  | NEWLINE | EOF_TOKEN | COMMENT

record Token =
  tok_type :: TokenType
  tok_value :: string
  tok_line :: int
  tok_col :: int

definition mkToken :: "TokenType \<Rightarrow> string \<Rightarrow> int \<Rightarrow> int \<Rightarrow> Token" where
  "mkToken t v l c = \<lparr>tok_type = t, tok_value = v, tok_line = l, tok_col = c\<rparr>"

section \<open>Tokenizer (lexer.cpp)\<close>

text \<open>
  The state of a \<^verbatim>\<open>Lexer\<close> is \<^verbatim>\<open>source\<close>, \<^verbatim>\<open>pos\<close>, \<^verbatim>\<open>line\<close> and \<^verbatim>\<open>col\<close>. The
  tokenizer never moves \<^verbatim>\<open>pos\<close> backwards and reads \<^verbatim>\<open>source\<close> at \<^verbatim>\<open>pos\<close> and beyond
  only, so the model keeps the unread text \<^verbatim>\<open>source[pos..]\<close> in place of the two:
  a state is (unread text, line, col).
\<close>

type_synonym lexer = "string \<times> int \<times> int"

fun unread :: "lexer \<Rightarrow> string" where
  "unread (cs, l, k) = cs"

fun line :: "lexer \<Rightarrow> int" where
  "line (cs, l, k) = l"

fun col :: "lexer \<Rightarrow> int" where
  "col (cs, l, k) = k"

text \<open>\<^verbatim>\<open>currentChar\<close> answers NUL at the end of the text: the end and a NUL byte in
  the text look the same to every caller.\<close>

fun currentChar :: "lexer \<Rightarrow> char" where
  "currentChar ([], l, k) = NUL"
| "currentChar (c # cs, l, k) = c"

fun peekChar :: "lexer \<Rightarrow> char" where
  "peekChar (c # d # cs, l, k) = d"
| "peekChar (cs, l, k) = NUL"

fun advance :: "lexer \<Rightarrow> lexer" where
  "advance ([], l, k) = ([], l, k)"
| "advance (c # cs, l, k) = (if c = newline then (cs, l + 1, 0) else (cs, l, k + 1))"

text \<open>\<^verbatim>\<open>source.substr(start, pos - start)\<close>: the text read between two states.\<close>

definition substr_between :: "lexer \<Rightarrow> lexer \<Rightarrow> string" where
  "substr_between L0 L1 = take (length (unread L0) - length (unread L1)) (unread L0)"

lemma advance_le: "length (unread (advance L)) \<le> length (unread L)"
  by (cases L rule: advance.cases) auto

lemma advance_less: "unread L \<noteq> [] \<Longrightarrow> length (unread (advance L)) < length (unread L)"
  by (cases L rule: advance.cases) auto

lemma currentChar_NUL: "currentChar L \<noteq> NUL \<Longrightarrow> unread L \<noteq> []"
  by (cases L rule: currentChar.cases) auto

function tripleLoop :: "char \<Rightarrow> lexer \<Rightarrow> lexer" where
  "tripleLoop q L =
     (case unread L of
        a # b # c # cs \<Rightarrow>
          if a = q \<and> b = q \<and> c = q then L else tripleLoop q (advance L)
      | _ \<Rightarrow> L)"
  by pat_completeness auto
termination
  by (relation "measure (\<lambda>(q, L). length (unread L))") (auto intro!: advance_less)

declare tripleLoop.simps [simp del]

function stringLoop :: "char \<Rightarrow> lexer \<Rightarrow> lexer" where
  "stringLoop q L =
     (if currentChar L \<noteq> q \<and> currentChar L \<noteq> NUL \<and> currentChar L \<noteq> newline
      then stringLoop q
             (advance (if currentChar L = backslash \<and> peekChar L \<noteq> NUL then advance L else L))
      else L)"
  by pat_completeness auto
termination
proof (relation "measure (\<lambda>(q, L). length (unread L))", goal_cases)
  case 1
  show ?case by simp
next
  case (2 q L)
  then have ne: "unread L \<noteq> []"
    by (auto dest: currentChar_NUL)
  show ?case
  proof (cases "currentChar L = backslash \<and> peekChar L \<noteq> NUL")
    case True
    have "length (unread (advance (advance L))) \<le> length (unread (advance L))"
      by (rule advance_le)
    also have "\<dots> < length (unread L)"
      using ne by (rule advance_less)
    finally show ?thesis using True by simp
  next
    case False
    then show ?thesis using advance_less [OF ne] by auto
  qed
qed

declare stringLoop.simps [simp del]

text \<open>\<^verbatim>\<open>advance(); advance(); advance();\<close> after a closing triple quote was found.\<close>

definition closeTriple :: "lexer \<Rightarrow> lexer" where
  "closeTriple L = (if 2 < length (unread L) then advance (advance (advance L)) else L)"

definition readTriple :: "char \<Rightarrow> lexer \<Rightarrow> Token \<times> lexer" where
  "readTriple q L1 =
     (let L2 = advance (advance L1);
          L3 = tripleLoop q L2;
          v = substr_between L2 L3;
          L4 = closeTriple L3
      in (mkToken STRING v (line L4) (col L4), L4))"

definition readString :: "lexer \<Rightarrow> Token \<times> lexer" where
  "readString L =
     (let quote = currentChar L;
          L1 = advance L
      in if quote = dquote \<and> 1 < length (unread L1)
            \<and> currentChar L1 = dquote \<and> peekChar L1 = dquote
         then readTriple dquote L1
         else if quote = squote \<and> 1 < length (unread L1)
            \<and> currentChar L1 = squote \<and> peekChar L1 = squote
         then readTriple squote L1
         else
           (let L2 = stringLoop quote L1;
                v = substr_between L1 L2;
                L3 = (if currentChar L2 = quote then advance L2 else L2)
            in (mkToken STRING v (line L3) (col L3), L3)))"

function readNumberLoop :: "bool \<Rightarrow> lexer \<Rightarrow> lexer" where
  "readNumberLoop hasDot L =
     (if isdigit (currentChar L) \<or> currentChar L = CHR ''.''
      then (if currentChar L = CHR ''.'' \<and> hasDot then L
            else readNumberLoop (hasDot \<or> currentChar L = CHR ''.'') (advance L))
      else L)"
  by pat_completeness auto
termination
  by (relation "measure (\<lambda>(h, L). length (unread L))")
     (auto intro!: advance_less dest!: currentChar_NUL simp: isdigit_def)

declare readNumberLoop.simps [simp del]

definition readNumber :: "lexer \<Rightarrow> Token \<times> lexer" where
  "readNumber L =
     (let L1 = readNumberLoop False L
      in (mkToken NUMBER (substr_between L L1) (line L1) (col L1), L1))"

function readIdentifierLoop :: "lexer \<Rightarrow> lexer" where
  "readIdentifierLoop L =
     (if isalnum (currentChar L) \<or> currentChar L = CHR ''_''
      then readIdentifierLoop (advance L) else L)"
  by pat_completeness auto
termination
  by (relation "measure (\<lambda>L. length (unread L))")
     (auto intro!: advance_less dest!: currentChar_NUL simp: isalnum_def isalpha_def isdigit_def)

declare readIdentifierLoop.simps [simp del]

definition getKeywordType :: "string \<Rightarrow> TokenType" where
  "getKeywordType identifier =
     (if identifier = ''print'' then PRINT
      else if identifier = ''input'' then INPUT
      else if identifier = ''if'' then IF
      else if identifier = ''else'' then ELSE
      else if identifier = ''for'' then FOR
      else if identifier = ''while'' then WHILE
      else if identifier = ''def'' then DEF
      else if identifier = ''return'' then RETURN
      else if identifier = ''True'' then TRUE
      else if identifier = ''False'' then FALSE
      else if identifier = ''None'' then NONE
      else IDENTIFIER)"

definition readIdentifier :: "lexer \<Rightarrow> Token \<times> lexer" where
  "readIdentifier L =
     (let L1 = readIdentifierLoop L;
          identifier = substr_between L L1
      in (mkToken (getKeywordType identifier) identifier (line L1) (col L1), L1))"

function skipSpaces :: "lexer \<Rightarrow> lexer" where
  "skipSpaces L =
     (if isspace (currentChar L) \<and> currentChar L \<noteq> newline
      then skipSpaces (advance L) else L)"
  by pat_completeness auto
termination
  by (relation "measure (\<lambda>L. length (unread L))")
     (auto intro!: advance_less dest!: currentChar_NUL simp: isspace_def)

declare skipSpaces.simps [simp del]

function skipComment :: "lexer \<Rightarrow> lexer" where
  "skipComment L =
     (if currentChar L \<noteq> newline \<and> currentChar L \<noteq> NUL
      then skipComment (advance L) else L)"
  by pat_completeness auto
termination
  by (relation "measure (\<lambda>L. length (unread L))")
     (auto intro!: advance_less dest!: currentChar_NUL)

declare skipComment.simps [simp del]

text \<open>One token emitted at the current position, followed by one \<^verbatim>\<open>advance()\<close>.\<close>

definition emit :: "TokenType \<Rightarrow> string \<Rightarrow> lexer \<Rightarrow> Token list \<times> lexer" where
  "emit t v L = ([mkToken t v (line L) (col L)], advance L)"

text \<open>The two-character operators advance first and record the position behind them.\<close>

definition emit2 :: "TokenType \<Rightarrow> string \<Rightarrow> lexer \<Rightarrow> Token list \<times> lexer" where
  "emit2 t v L = (let L1 = advance (advance L) in ([mkToken t v (line L1) (col L1)], L1))"

text \<open>
  The body of the loop of \<^verbatim>\<open>Lexer::tokenize\<close> behind the whitespace skip and the
  end test: the tokens it pushes (none or one) and the state it leaves.
\<close>

definition lexStep :: "lexer \<Rightarrow> Token list \<times> lexer" where
  "lexStep L =
     (let c = currentChar L in
      if c = CHR ''#'' then ([], skipComment L)
      else if isdigit c then (let (t, L1) = readNumber L in ([t], L1))
      else if c = dquote \<or> c = squote then (let (t, L1) = readString L in ([t], L1))
      else if isalpha c \<or> c = CHR ''_'' then (let (t, L1) = readIdentifier L in ([t], L1))
      else if c = CHR ''+'' then emit PLUS ''+'' L
      else if c = CHR ''-'' then emit MINUS ''-'' L
      else if c = CHR ''*'' then emit MULTIPLY ''*'' L
      else if c = CHR ''/'' then emit DIVIDE ''/'' L
      else if c = CHR ''%'' then emit MODULO ''%'' L
      else if c = CHR ''='' then
        (if peekChar L = CHR ''='' then emit2 EQUAL ''=='' L else emit ASSIGN ''='' L)
      else if c = CHR ''!'' then
        (if peekChar L = CHR ''='' then emit2 NOT_EQUAL ''!='' L else ([], advance L))
      else if c = CHR ''<'' then emit LESS ''<'' L
      else if c = CHR ''>'' then emit GREATER ''>'' L
      else if c = CHR ''('' then emit LPAREN ''('' L
      else if c = CHR '')'' then emit RPAREN '')'' L
      else if c = CHR ''{'' then emit LBRACE ''{'' L
      else if c = CHR ''}'' then emit RBRACE ''}'' L
      else if c = CHR ''['' then emit LBRACKET ''['' L
      else if c = CHR '']'' then emit RBRACKET '']'' L
      else if c = CHR '','' then emit COMMA '','' L
      else if c = CHR ''.'' then emit DOT ''.'' L
      else if c = CHR '':'' then emit COLON '':'' L
      else if c = CHR '';'' then emit SEMICOLON '';'' L
      else if c = newline then emit NEWLINE [newline] L
      else ([], advance L))"

lemma tripleLoop_le: "length (unread (tripleLoop q L)) \<le> length (unread L)"
proof (induction q L rule: tripleLoop.induct)
  case (1 q L)
  show ?case
  proof (cases "unread L")
    case Nil then show ?thesis by (simp add: tripleLoop.simps [of q L])
  next
    case (Cons a as)
    note A = this
    show ?thesis
    proof (cases as)
      case Nil then show ?thesis using A by (simp add: tripleLoop.simps [of q L])
    next
      case (Cons b bs)
      note B = this
      show ?thesis
      proof (cases bs)
        case Nil then show ?thesis using A B by (simp add: tripleLoop.simps [of q L])
      next
        case (Cons c cs)
        show ?thesis
        proof (cases "a = q \<and> b = q \<and> c = q")
          case True
          then show ?thesis using A B Cons by (simp add: tripleLoop.simps [of q L])
        next
          case False
          have "length (unread (tripleLoop q (advance L))) \<le> length (unread (advance L))"
            using "1.IH" [OF A B Cons False] .
          also have "\<dots> \<le> length (unread L)" by (rule advance_le)
          finally show ?thesis using False A B Cons by (simp add: tripleLoop.simps [of q L])
        qed
      qed
    qed
  qed
qed

lemma stringLoop_le: "length (unread (stringLoop q L)) \<le> length (unread L)"
proof (induction q L rule: stringLoop.induct)
  case (1 q L)
  show ?case
  proof (cases "currentChar L \<noteq> q \<and> currentChar L \<noteq> NUL \<and> currentChar L \<noteq> newline")
    case True
    let ?L' = "advance (if currentChar L = backslash \<and> peekChar L \<noteq> NUL then advance L else L)"
    have "length (unread (stringLoop q ?L')) \<le> length (unread ?L')"
      using "1.IH" True by simp
    also have "\<dots> \<le> length (unread L)"
      using advance_le [of L] advance_le [of "advance L"] by auto
    finally show ?thesis using True by (simp add: stringLoop.simps [of q L])
  next
    case False
    then show ?thesis by (subst stringLoop.simps) (simp only: if_False order_refl)
  qed
qed

lemma readNumberLoop_le: "length (unread (readNumberLoop h L)) \<le> length (unread L)"
proof (induction h L rule: readNumberLoop.induct)
  case (1 h L)
  show ?case
    using "1.IH" advance_le [of L]
    by (subst readNumberLoop.simps) (auto simp del: readNumberLoop.simps)
qed

lemma readIdentifierLoop_le: "length (unread (readIdentifierLoop L)) \<le> length (unread L)"
proof (induction L rule: readIdentifierLoop.induct)
  case (1 L)
  show ?case
    using "1.IH" advance_le [of L]
    by (subst readIdentifierLoop.simps) auto
qed

lemma skipSpaces_le: "length (unread (skipSpaces L)) \<le> length (unread L)"
proof (induction L rule: skipSpaces.induct)
  case (1 L)
  show ?case
    using "1.IH" advance_le [of L]
    by (subst skipSpaces.simps) auto
qed

lemma skipComment_le: "length (unread (skipComment L)) \<le> length (unread L)"
proof (induction L rule: skipComment.induct)
  case (1 L)
  show ?case
    using "1.IH" advance_le [of L]
    by (subst skipComment.simps) auto
qed

lemma closeTriple_le: "length (unread (closeTriple L)) \<le> length (unread L)"
  using advance_le [of L] advance_le [of "advance L"] advance_le [of "advance (advance L)"]
  by (auto simp: closeTriple_def)

lemma readTriple_le: "length (unread (snd (readTriple q L))) \<le> length (unread L)"
proof -
  have "length (unread (closeTriple (tripleLoop q (advance (advance L)))))
        \<le> length (unread (tripleLoop q (advance (advance L))))"
    by (rule closeTriple_le)
  also have "\<dots> \<le> length (unread (advance (advance L)))" by (rule tripleLoop_le)
  also have "\<dots> \<le> length (unread (advance L))" by (rule advance_le)
  also have "\<dots> \<le> length (unread L)" by (rule advance_le)
  finally show ?thesis by (simp add: readTriple_def Let_def)
qed

lemma readString_less:
  assumes "unread L \<noteq> []"
  shows "length (unread (snd (readString L))) < length (unread L)"
proof -
  have a: "length (unread (advance L)) < length (unread L)"
    using assms by (rule advance_less)
  have s: "length (unread (stringLoop q (advance L))) \<le> length (unread (advance L))" for q
    by (rule stringLoop_le)
  have s': "length (unread (advance (stringLoop q (advance L)))) \<le> length (unread (advance L))" for q
    using s [of q] advance_le [of "stringLoop q (advance L)"] by linarith
  show ?thesis
    using a s s' readTriple_le [of dquote "advance L"] readTriple_le [of squote "advance L"]
    by (auto simp: readString_def Let_def simp del: One_nat_def) (metis le_less_trans)+
qed

lemma isdigit_not_NUL: "isdigit c \<Longrightarrow> c \<noteq> NUL"
  by (auto simp: isdigit_def)

lemma isalpha_not_NUL: "isalpha c \<Longrightarrow> c \<noteq> NUL"
  by (auto simp: isalpha_def)

lemma readNumberLoop_less:
  "isdigit (currentChar L) \<Longrightarrow> length (unread (readNumberLoop False L)) < length (unread L)"
proof -
  assume d: "isdigit (currentChar L)"
  then have nd: "currentChar L \<noteq> CHR ''.''"
    by (auto simp: isdigit_def)
  have ne: "unread L \<noteq> []"
    using isdigit_not_NUL [OF d] by (rule currentChar_NUL)
  have "readNumberLoop False L = readNumberLoop False (advance L)"
    using d nd by (subst readNumberLoop.simps) simp
  then show ?thesis
    using readNumberLoop_le [of False "advance L"] advance_less [OF ne] by simp
qed

lemma readIdentifierLoop_less:
  "isalpha (currentChar L) \<or> currentChar L = CHR ''_''
   \<Longrightarrow> length (unread (readIdentifierLoop L)) < length (unread L)"
proof -
  assume d: "isalpha (currentChar L) \<or> currentChar L = CHR ''_''"
  then have "currentChar L \<noteq> NUL"
    by (auto dest: isalpha_not_NUL)
  then have ne: "unread L \<noteq> []"
    by (rule currentChar_NUL)
  have "readIdentifierLoop L = readIdentifierLoop (advance L)"
    using d by (subst readIdentifierLoop.simps) (auto simp: isalnum_def)
  then show ?thesis
    using readIdentifierLoop_le [of "advance L"] advance_less [OF ne] by simp
qed

lemma skipComment_less:
  "currentChar L = CHR ''#'' \<Longrightarrow> length (unread (skipComment L)) < length (unread L)"
proof -
  assume d: "currentChar L = CHR ''#''"
  then have "currentChar L \<noteq> NUL"
    by simp
  then have ne: "unread L \<noteq> []"
    by (rule currentChar_NUL)
  have "skipComment L = skipComment (advance L)"
    using d by (subst skipComment.simps) simp
  then show ?thesis
    using skipComment_le [of "advance L"] advance_less [OF ne] by simp
qed

lemma emit_less: "unread L \<noteq> [] \<Longrightarrow> length (unread (snd (emit t v L))) < length (unread L)"
  by (simp add: emit_def advance_less)

lemma emit2_less: "unread L \<noteq> [] \<Longrightarrow> length (unread (snd (emit2 t v L))) < length (unread L)"
  using advance_le [of "advance L"] advance_less [of L] by (simp add: emit2_def Let_def)

lemma lexStep_less:
  assumes "currentChar L \<noteq> NUL"
  shows "length (unread (snd (lexStep L))) < length (unread L)"
proof -
  have ne: "unread L \<noteq> []"
    using assms by (rule currentChar_NUL)
  note less = skipComment_less readNumberLoop_less readString_less [OF ne]
    readIdentifierLoop_less emit_less [OF ne] emit2_less [OF ne] advance_less [OF ne]
  show ?thesis
    unfolding lexStep_def Let_def
    by (simp add: less readNumber_def readIdentifier_def Let_def split_beta)
qed

lemma lexStep_skipSpaces_less:
  assumes "currentChar (skipSpaces L) \<noteq> NUL" and "lexStep (skipSpaces L) = (ts, L2)"
  shows "length (unread L2) < length (unread L)"
proof -
  have "length (unread L2) < length (unread (skipSpaces L))"
    using lexStep_less [OF assms(1)] assms(2) by simp
  also have "\<dots> \<le> length (unread L)"
    by (rule skipSpaces_le)
  finally show ?thesis .
qed

function tokenizeLoop :: "lexer \<Rightarrow> Token list" where
  "tokenizeLoop L =
     (if unread L = [] then [mkToken EOF_TOKEN [] (line L) (col L)]
      else
        (let L1 = skipSpaces L in
         if currentChar L1 = NUL then [mkToken EOF_TOKEN [] (line L1) (col L1)]
         else (case lexStep L1 of (ts, L2) \<Rightarrow> ts @ tokenizeLoop L2)))"
  by pat_completeness auto
termination
proof (relation "measure (\<lambda>L. length (unread L))", goal_cases)
  case 1
  show ?case by simp
next
  case (2 L L1 ts L2)
  then have "currentChar (skipSpaces L) \<noteq> NUL" and "lexStep (skipSpaces L) = (ts, L2)"
    by simp_all
  then have "length (unread L2) < length (unread L)"
    by (rule lexStep_skipSpaces_less)
  then show ?case by simp
qed

declare tokenizeLoop.simps [simp del]

definition tokenize :: "string \<Rightarrow> Token list" where
  "tokenize source = tokenizeLoop (source, 1, 0)"


section \<open>Syntax trees (parser.h)\<close>

text \<open>
  Modelled from the spec: the declarations of \<^verbatim>\<open>ListExpr\<close>, \<^verbatim>\<open>IndexExpr\<close> and
  \<^verbatim>\<open>WithStmt\<close>. The header that declares them is not among the sources; their fields are
  the ones the parser fills and the executor reads (\<^verbatim>\<open>elements\<close>; \<^verbatim>\<open>array\<close>, \<^verbatim>\<open>index\<close>;
  \<^verbatim>\<open>context_expr\<close>, \<^verbatim>\<open>optional_vars\<close>, \<^verbatim>\<open>body\<close>). The other node classes are those of
  the header at hand.
\<close>

datatype expr =
    LiteralExpr string TokenType
  | FStringExpr string
  | IdentifierExpr string
  | BinaryExpr expr TokenType expr
  | CallExpr expr "expr list"
  | ListExpr "expr list"
  | IndexExpr expr expr

datatype stmt =
    PrintStmt "expr list"
  | AssignStmt string expr
  | ExprStmt expr
  | WithStmt expr string "stmt list"

section \<open>Decimal rendering of integers\<close>

text \<open>\<^verbatim>\<open>std::to_string\<close> on an \<^verbatim>\<open>int\<close>, and \<^verbatim>\<open>operator<<\<close> on a \<^verbatim>\<open>long long\<close>.\<close>

fun decimal :: "nat \<Rightarrow> string" where
  "decimal n =
     (if n < 10 then [''0123456789'' ! n]
      else decimal (n div 10) @ [''0123456789'' ! (n mod 10)])"

declare decimal.simps [simp del]

definition to_string :: "int \<Rightarrow> string" where
  "to_string i = (if i < 0 then CHR ''-'' # decimal (nat (- i)) else decimal (nat i))"

section \<open>Parser (parser.cpp)\<close>

text \<open>
  A \<^verbatim>\<open>Parser\<close> holds the token vector and the index \<^verbatim>\<open>current\<close>. It reads the vector at
  \<^verbatim>\<open>current\<close> and \<^verbatim>\<open>current + 1\<close>, and at \<^verbatim>\<open>current - 1\<close> only for the token it has just
  matched; the two places that step back (\<^verbatim>\<open>current--\<close>) undo the match before them. The
  model therefore keeps the tokens from \<^verbatim>\<open>current\<close> on. The vector comes from
  \<^verbatim>\<open>tokenize\<close> and ends with the EOF token, which \<^verbatim>\<open>advance\<close> never passes, so the
  parser never reads behind the vector; the model reads an exhausted list as an EOF token.

  A failure is \<^verbatim>\<open>std::runtime_error\<close>; the model returns its message together with the
  position at the throw, since \<^verbatim>\<open>Parser::parse\<close> resumes from there.
\<close>

type_synonym parse_error = "string \<times> Token list"
type_synonym 'a parse_result = "parse_error + ('a \<times> Token list)"

fun peek :: "Token list \<Rightarrow> Token" where
  "peek [] = mkToken EOF_TOKEN [] 0 0"
| "peek (t # ts) = t"

definition isAtEnd :: "Token list \<Rightarrow> bool" where
  "isAtEnd ts = (tok_type (peek ts) = EOF_TOKEN)"

text \<open>\<^verbatim>\<open>Parser::advance\<close>; the caller takes \<^verbatim>\<open>previous()\<close> from the state before.\<close>

definition advance_token :: "Token list \<Rightarrow> Token list" where
  "advance_token ts = (if \<not> isAtEnd ts then tl ts else ts)"

definition consume :: "TokenType \<Rightarrow> string \<Rightarrow> Token list \<Rightarrow> Token parse_result" where
  "consume t message ts =
     (if tok_type (peek ts) = t then Inr (peek ts, advance_token ts)
      else Inl (message @ '' at line '' @ to_string (tok_line (peek ts)), ts))"

function
  parseExpression :: "Token list \<Rightarrow> expr parse_result" and
  parseComparison :: "Token list \<Rightarrow> expr parse_result" and
  comparisonLoop :: "expr \<Rightarrow> Token list \<Rightarrow> expr parse_result" and
  parseTerm :: "Token list \<Rightarrow> expr parse_result" and
  termLoop :: "expr \<Rightarrow> Token list \<Rightarrow> expr parse_result" and
  parseFactor :: "Token list \<Rightarrow> expr parse_result" and
  factorLoop :: "expr \<Rightarrow> Token list \<Rightarrow> expr parse_result" and
  parseUnary :: "Token list \<Rightarrow> expr parse_result" and
  parsePrimary :: "Token list \<Rightarrow> expr parse_result" and
  postfixLoop :: "expr \<Rightarrow> Token list \<Rightarrow> expr parse_result" and
  parseCall :: "expr \<Rightarrow> Token list \<Rightarrow> expr parse_result" and
  expressionsLoop :: "expr list \<Rightarrow> Token list \<Rightarrow> (expr list) parse_result" and
  parseList :: "Token list \<Rightarrow> expr parse_result" and
  parseIndex :: "expr \<Rightarrow> Token list \<Rightarrow> expr parse_result"
where
  "parseExpression ts = parseComparison ts"
| "parseComparison ts =
     (case parseTerm ts of
        Inl e \<Rightarrow> Inl e
      | Inr (expr, ts1) \<Rightarrow> comparisonLoop expr ts1)"
| "comparisonLoop expr ts =
     (if tok_type (peek ts) = EQUAL \<or> tok_type (peek ts) = NOT_EQUAL
         \<or> tok_type (peek ts) = LESS \<or> tok_type (peek ts) = GREATER
      then (case parseTerm (advance_token ts) of
              Inl e \<Rightarrow> Inl e
            | Inr (right, ts1) \<Rightarrow> comparisonLoop (BinaryExpr expr (tok_type (peek ts)) right) ts1)
      else Inr (expr, ts))"
| "parseTerm ts =
     (case parseFactor ts of
        Inl e \<Rightarrow> Inl e
      | Inr (expr, ts1) \<Rightarrow> termLoop expr ts1)"
| "termLoop expr ts =
     (if tok_type (peek ts) = PLUS \<or> tok_type (peek ts) = MINUS
      then (case parseFactor (advance_token ts) of
              Inl e \<Rightarrow> Inl e
            | Inr (right, ts1) \<Rightarrow> termLoop (BinaryExpr expr (tok_type (peek ts)) right) ts1)
      else Inr (expr, ts))"
| "parseFactor ts =
     (case parseUnary ts of
        Inl e \<Rightarrow> Inl e
      | Inr (expr, ts1) \<Rightarrow> factorLoop expr ts1)"
| "factorLoop expr ts =
     (if tok_type (peek ts) = MULTIPLY \<or> tok_type (peek ts) = DIVIDE
         \<or> tok_type (peek ts) = MODULO
      then (case parseUnary (advance_token ts) of
              Inl e \<Rightarrow> Inl e
            | Inr (right, ts1) \<Rightarrow> factorLoop (BinaryExpr expr (tok_type (peek ts)) right) ts1)
      else Inr (expr, ts))"
| "parseUnary ts = parsePrimary ts"
| "parsePrimary ts =
     (if tok_type (peek ts) = NUMBER
        then Inr (LiteralExpr (tok_value (peek ts)) NUMBER, advance_token ts)
      else if tok_type (peek ts) = STRING
        then Inr (LiteralExpr (tok_value (peek ts)) STRING, advance_token ts)
      else if tok_type (peek ts) = F_STRING
        then Inr (FStringExpr (tok_value (peek ts)), advance_token ts)
      else if tok_type (peek ts) = TRUE
        then Inr (LiteralExpr ''True'' TRUE, advance_token ts)
      else if tok_type (peek ts) = FALSE
        then Inr (LiteralExpr ''False'' FALSE, advance_token ts)
      else if tok_type (peek ts) = LBRACKET
        then parseList ts
      else if tok_type (peek ts) = IDENTIFIER
        then postfixLoop (IdentifierExpr (tok_value (peek ts))) (advance_token ts)
      else if tok_type (peek ts) = LPAREN
        then (case parseExpression (advance_token ts) of
                Inl e \<Rightarrow> Inl e
              | Inr (expr, ts1) \<Rightarrow>
                  (case consume RPAREN ''Expected ')' after expression'' ts1 of
                     Inl e \<Rightarrow> Inl e
                   | Inr (t, ts2) \<Rightarrow> Inr (expr, ts2)))
      else Inl (''Expected expression at line '' @ to_string (tok_line (peek ts)), ts))"
| "postfixLoop base_expr ts =
     (if tok_type (peek ts) = LPAREN
        then parseCall base_expr (advance_token ts)
      else if tok_type (peek ts) = LBRACKET
        then (case parseIndex base_expr ts of
                Inl e \<Rightarrow> Inl e
              | Inr (indexed, ts1) \<Rightarrow> postfixLoop indexed ts1)
      else Inr (base_expr, ts))"
| "parseCall callee ts =
     (if tok_type (peek ts) = RPAREN
        then Inr (CallExpr callee [], advance_token ts)
      else (case expressionsLoop [] ts of
              Inl e \<Rightarrow> Inl e
            | Inr (arguments, ts1) \<Rightarrow>
                (case consume RPAREN ''Expected ')' after arguments'' ts1 of
                   Inl e \<Rightarrow> Inl e
                 | Inr (t, ts2) \<Rightarrow> Inr (CallExpr callee arguments, ts2))))"
| "expressionsLoop acc ts =
     (case parseExpression ts of
        Inl e \<Rightarrow> Inl e
      | Inr (expr, ts1) \<Rightarrow>
          if tok_type (peek ts1) = COMMA
          then expressionsLoop (acc @ [expr]) (advance_token ts1)
          else Inr (acc @ [expr], ts1))"
| "parseList ts =
     (case consume LBRACKET ''Expected '[' for list'' ts of
        Inl e \<Rightarrow> Inl e
      | Inr (t, ts1) \<Rightarrow>
          if tok_type (peek ts1) = RBRACKET
          then Inr (ListExpr [], advance_token ts1)
          else (case expressionsLoop [] ts1 of
                  Inl e \<Rightarrow> Inl e
                | Inr (elements, ts2) \<Rightarrow>
                    (case consume RBRACKET ''Expected ']' after list elements'' ts2 of
                       Inl e \<Rightarrow> Inl e
                     | Inr (t, ts3) \<Rightarrow> Inr (ListExpr elements, ts3))))"
| "parseIndex array ts =
     (case consume LBRACKET ''Expected '[' for index'' ts of
        Inl e \<Rightarrow> Inl e
      | Inr (t, ts1) \<Rightarrow>
          (case parseExpression ts1 of
             Inl e \<Rightarrow> Inl e
           | Inr (index, ts2) \<Rightarrow>
               (case consume RBRACKET ''Expected ']' after index'' ts2 of
                  Inl e \<Rightarrow> Inl e
                | Inr (t, ts3) \<Rightarrow> Inr (IndexExpr array index, ts3))))"
  by pat_completeness auto

abbreviation parser_dom where
  "parser_dom \<equiv> parseExpression_parseComparison_comparisonLoop_parseTerm_termLoop_parseFactor_factorLoop_parseUnary_parsePrimary_postfixLoop_parseCall_expressionsLoop_parseList_parseIndex_dom"

lemma advance_token_le: "length (advance_token ts) \<le> length ts"
  by (simp add: advance_token_def)

lemma advance_token_less:
  "tok_type (peek ts) \<noteq> EOF_TOKEN \<Longrightarrow> length (advance_token ts) < length ts"
  by (cases ts) (auto simp: advance_token_def isAtEnd_def mkToken_def)

lemma consume_le: "consume t m ts = Inr (x, ts') \<Longrightarrow> length ts' \<le> length ts"
  by (auto simp: consume_def advance_token_le split: if_splits)

lemma consume_less:
  "consume t m ts = Inr (x, ts') \<Longrightarrow> t \<noteq> EOF_TOKEN \<Longrightarrow> length ts' < length ts"
  by (auto simp: consume_def advance_token_less split: if_splits)

lemma parse_progress:
  shows "parser_dom (Inl (Inl (Inl ts)))
      \<Longrightarrow> \<forall>r ts'. parseExpression ts = Inr (r, ts') \<longrightarrow> length ts' < length ts"
    and "parser_dom (Inl (Inl (Inr (Inl ts))))
      \<Longrightarrow> \<forall>r ts'. parseComparison ts = Inr (r, ts') \<longrightarrow> length ts' < length ts"
    and "parser_dom (Inl (Inl (Inr (Inr (expr, ts)))))
      \<Longrightarrow> \<forall>r ts'. comparisonLoop expr ts = Inr (r, ts') \<longrightarrow> length ts' \<le> length ts"
    and "parser_dom (Inl (Inr (Inl (Inl ts))))
      \<Longrightarrow> \<forall>r ts'. parseTerm ts = Inr (r, ts') \<longrightarrow> length ts' < length ts"
    and "parser_dom (Inl (Inr (Inl (Inr (expr, ts)))))
      \<Longrightarrow> \<forall>r ts'. termLoop expr ts = Inr (r, ts') \<longrightarrow> length ts' \<le> length ts"
    and "parser_dom (Inl (Inr (Inr (Inl ts))))
      \<Longrightarrow> \<forall>r ts'. parseFactor ts = Inr (r, ts') \<longrightarrow> length ts' < length ts"
    and "parser_dom (Inl (Inr (Inr (Inr (expr, ts)))))
      \<Longrightarrow> \<forall>r ts'. factorLoop expr ts = Inr (r, ts') \<longrightarrow> length ts' \<le> length ts"
    and "parser_dom (Inr (Inl (Inl ts)))
      \<Longrightarrow> \<forall>r ts'. parseUnary ts = Inr (r, ts') \<longrightarrow> length ts' < length ts"
    and "parser_dom (Inr (Inl (Inr (Inl ts))))
      \<Longrightarrow> \<forall>r ts'. parsePrimary ts = Inr (r, ts') \<longrightarrow> length ts' < length ts"
    and "parser_dom (Inr (Inl (Inr (Inr (base_expr, ts)))))
      \<Longrightarrow> \<forall>r ts'. postfixLoop base_expr ts = Inr (r, ts') \<longrightarrow> length ts' \<le> length ts"
    and "parser_dom (Inr (Inr (Inl (Inl (callee, ts)))))
      \<Longrightarrow> \<forall>r ts'. parseCall callee ts = Inr (r, ts') \<longrightarrow> length ts' \<le> length ts"
    and "parser_dom (Inr (Inr (Inl (Inr (acc, ts)))))
      \<Longrightarrow> \<forall>r ts'. expressionsLoop acc ts = Inr (r, ts') \<longrightarrow> length ts' < length ts"
    and "parser_dom (Inr (Inr (Inr (Inl ts))))
      \<Longrightarrow> \<forall>r ts'. parseList ts = Inr (r, ts') \<longrightarrow> length ts' < length ts"
    and "parser_dom (Inr (Inr (Inr (Inr (array, ts)))))
      \<Longrightarrow> \<forall>r ts'. parseIndex array ts = Inr (r, ts') \<longrightarrow> length ts' < length ts"
proof (induct rule: parseExpression_parseComparison_comparisonLoop_parseTerm_termLoop_parseFactor_factorLoop_parseUnary_parsePrimary_postfixLoop_parseCall_expressionsLoop_parseList_parseIndex.pinduct)
  case (1 ts)
  then show ?case by (simp add: parseExpression.psimps)
next
  case (2 ts)
  then show ?case
    by (fastforce simp: parseComparison.psimps split: sum.splits prod.splits)
next
  case (3 expr ts)
  then show ?case
    using advance_token_le [of ts]
    by (fastforce simp: comparisonLoop.psimps split: sum.splits prod.splits if_splits)
next
  case (4 ts)
  then show ?case
    by (fastforce simp: parseTerm.psimps split: sum.splits prod.splits)
next
  case (5 expr ts)
  then show ?case
    using advance_token_le [of ts]
    by (fastforce simp: termLoop.psimps split: sum.splits prod.splits if_splits)
next
  case (6 ts)
  then show ?case
    by (fastforce simp: parseFactor.psimps split: sum.splits prod.splits)
next
  case (7 expr ts)
  then show ?case
    using advance_token_le [of ts]
    by (fastforce simp: factorLoop.psimps split: sum.splits prod.splits if_splits)
next
  case (8 ts)
  then show ?case by (simp add: parseUnary.psimps)
next
  case (9 ts)
  note dom = 9(1)
  show ?case
  proof (intro allI impI)
    fix r ts'
    assume eq: "parsePrimary ts = Inr (r, ts')"
    have lt: "tok_type (peek ts) \<noteq> EOF_TOKEN \<Longrightarrow> length (advance_token ts) < length ts"
      by (rule advance_token_less)
    consider (lit) "tok_type (peek ts) \<in> {NUMBER, STRING, F_STRING, TRUE, FALSE}"
      | (lst) "tok_type (peek ts) = LBRACKET"
      | (ident) "tok_type (peek ts) = IDENTIFIER"
      | (paren) "tok_type (peek ts) = LPAREN"
      | (other) "tok_type (peek ts) \<notin> {NUMBER, STRING, F_STRING, TRUE, FALSE, LBRACKET, IDENTIFIER, LPAREN}"
      by auto
    then show "length ts' < length ts"
    proof cases
      case lit
      then have "ts' = advance_token ts"
        using eq by (auto simp: parsePrimary.psimps [OF dom])
      then show ?thesis using lt lit by auto
    next
      case lst
      then have "parseList ts = Inr (r, ts')"
        using eq by (simp add: parsePrimary.psimps [OF dom])
      then show ?thesis using 9(2) lst by simp
    next
      case ident
      then have "postfixLoop (IdentifierExpr (tok_value (peek ts))) (advance_token ts) = Inr (r, ts')"
        using eq by (simp add: parsePrimary.psimps [OF dom])
      then have "length ts' \<le> length (advance_token ts)"
        using 9(3) ident by simp
      then show ?thesis using lt ident by simp
    next
      case paren
      then obtain e ts1 t where p: "parseExpression (advance_token ts) = Inr (e, ts1)"
          and c: "consume RPAREN ''Expected ')' after expression'' ts1 = Inr (t, ts')"
        using eq by (auto simp: parsePrimary.psimps [OF dom] split: sum.splits prod.splits)
      have "length ts1 < length (advance_token ts)"
        using 9(4) paren p by simp
      then show ?thesis
        using consume_le [OF c] advance_token_le [of ts] by linarith
    next
      case other
      then show ?thesis
        using eq by (simp add: parsePrimary.psimps [OF dom])
    qed
  qed
next
  case (10 base_expr ts)
  note dom = 10(1)
  show ?case
  proof (intro allI impI)
    fix r ts'
    assume eq: "postfixLoop base_expr ts = Inr (r, ts')"
    consider (call) "tok_type (peek ts) = LPAREN"
      | (index) "tok_type (peek ts) = LBRACKET"
      | (other) "tok_type (peek ts) \<noteq> LPAREN" "tok_type (peek ts) \<noteq> LBRACKET"
      by auto
    then show "length ts' \<le> length ts"
    proof cases
      case call
      then have "parseCall base_expr (advance_token ts) = Inr (r, ts')"
        using eq by (simp add: postfixLoop.psimps [OF dom])
      then have "length ts' \<le> length (advance_token ts)"
        using 10(2) call by simp
      then show ?thesis using advance_token_le [of ts] by linarith
    next
      case index
      then obtain b ts1 where p: "parseIndex base_expr ts = Inr (b, ts1)"
          and l: "postfixLoop b ts1 = Inr (r, ts')"
        using eq by (auto simp: postfixLoop.psimps [OF dom] split: sum.splits prod.splits)
      have "length ts1 < length ts"
        using 10(3) index p by simp
      moreover have "length ts' \<le> length ts1"
        using 10(4) [OF _ index p refl] index l by simp
      ultimately show ?thesis by linarith
    next
      case other
      then show ?thesis
        using eq by (simp add: postfixLoop.psimps [OF dom])
    qed
  qed
next
  case (11 callee ts)
  note dom = 11(1)
  show ?case
  proof (intro allI impI)
    fix r ts'
    assume eq: "parseCall callee ts = Inr (r, ts')"
    show "length ts' \<le> length ts"
    proof (cases "tok_type (peek ts) = RPAREN")
      case True
      then have "ts' = advance_token ts"
        using eq by (simp add: parseCall.psimps [OF dom])
      then show ?thesis by (simp add: advance_token_le)
    next
      case False
      then obtain as ts1 t where p: "expressionsLoop [] ts = Inr (as, ts1)"
          and c: "consume RPAREN ''Expected ')' after arguments'' ts1 = Inr (t, ts')"
        using eq by (auto simp: parseCall.psimps [OF dom] split: sum.splits prod.splits)
      have "length ts1 < length ts"
        using 11(2) False p by simp
      then show ?thesis using consume_le [OF c] by linarith
    qed
  qed
next
  case (12 acc ts)
  note dom = 12(1)
  show ?case
  proof (intro allI impI)
    fix r ts'
    assume eq: "expressionsLoop acc ts = Inr (r, ts')"
    then obtain e ts1 where p: "parseExpression ts = Inr (e, ts1)"
      by (auto simp: expressionsLoop.psimps [OF dom] split: sum.splits prod.splits)
    have l1: "length ts1 < length ts"
      using 12(2) p by simp
    show "length ts' < length ts"
    proof (cases "tok_type (peek ts1) = COMMA")
      case True
      then have "expressionsLoop (acc @ [e]) (advance_token ts1) = Inr (r, ts')"
        using eq p by (simp add: expressionsLoop.psimps [OF dom])
      then have "length ts' < length (advance_token ts1)"
        using 12(3) [OF p refl True] by simp
      then show ?thesis using l1 advance_token_le [of ts1] by linarith
    next
      case False
      then have "ts' = ts1"
        using eq p by (simp add: expressionsLoop.psimps [OF dom])
      then show ?thesis using l1 by simp
    qed
  qed
next
  case (13 ts)
  note dom = 13(1)
  show ?case
  proof (intro allI impI)
    fix r ts'
    assume eq: "parseList ts = Inr (r, ts')"
    then obtain t ts1 where c: "consume LBRACKET ''Expected '[' for list'' ts = Inr (t, ts1)"
      by (auto simp: parseList.psimps [OF dom] split: sum.splits prod.splits)
    have l1: "length ts1 < length ts"
      using consume_less [OF c] by simp
    show "length ts' < length ts"
    proof (cases "tok_type (peek ts1) = RBRACKET")
      case True
      then have "ts' = advance_token ts1"
        using eq c by (simp add: parseList.psimps [OF dom])
      then show ?thesis using l1 advance_token_le [of ts1] by simp
    next
      case False
      then obtain es ts2 t2 where p: "expressionsLoop [] ts1 = Inr (es, ts2)"
          and c2: "consume RBRACKET ''Expected ']' after list elements'' ts2 = Inr (t2, ts')"
        using eq c by (auto simp: parseList.psimps [OF dom] split: sum.splits prod.splits)
      have "length ts2 < length ts1"
        using 13(2) [OF c refl False] p by simp
      then show ?thesis using l1 consume_le [OF c2] by linarith
    qed
  qed
next
  case (14 array ts)
  note dom = 14(1)
  show ?case
  proof (intro allI impI)
    fix r ts'
    assume eq: "parseIndex array ts = Inr (r, ts')"
    then obtain t ts1 e ts2 t2 where c: "consume LBRACKET ''Expected '[' for index'' ts = Inr (t, ts1)"
        and p: "parseExpression ts1 = Inr (e, ts2)"
        and c2: "consume RBRACKET ''Expected ']' after index'' ts2 = Inr (t2, ts')"
      by (auto simp: parseIndex.psimps [OF dom] split: sum.splits prod.splits)
    have "length ts2 < length ts1"
      using 14(2) [OF c refl] p by simp
    then show "length ts' < length ts"
      using consume_le [OF c] consume_le [OF c2] by linarith
  qed
qed

definition parser_measure where
  "parser_measure =
     case_sum
       (case_sum
          (case_sum (\<lambda>ts. (length ts, 6::nat))
             (case_sum (\<lambda>ts. (length ts, 5)) (\<lambda>(e::expr, ts). (length ts, 0))))
          (case_sum
             (case_sum (\<lambda>ts. (length ts, 4)) (\<lambda>(e::expr, ts). (length ts, 0)))
             (case_sum (\<lambda>ts. (length ts, 3)) (\<lambda>(e::expr, ts). (length ts, 0)))))
       (case_sum
          (case_sum (\<lambda>ts. (length ts, 2))
             (case_sum (\<lambda>ts. (length ts, 1)) (\<lambda>(e::expr, ts). (length ts, 1))))
          (case_sum
             (case_sum (\<lambda>(e::expr, ts). (length ts, 8)) (\<lambda>(es::expr list, ts::Token list). (length ts, 7)))
             (case_sum (\<lambda>ts. (length ts, 0)) (\<lambda>(e::expr, ts). (length ts, 0)))))"

lemma advance_token_less_types:
  "tok_type (peek ts) = t \<Longrightarrow> t \<noteq> EOF_TOKEN \<Longrightarrow> length (advance_token ts) < length ts"
  by (auto intro: advance_token_less)

lemmas parse_progress_rules = parse_progress [rule_format]

lemma less_via_advance:
  "length ts' < length (advance_token ts) \<Longrightarrow> length ts' < length ts"
  "length ts' \<le> length (advance_token ts) \<Longrightarrow> tok_type (peek ts) \<noteq> EOF_TOKEN \<Longrightarrow> length ts' < length ts"
  using advance_token_le [of ts] advance_token_less [of ts] by linarith+

lemma advance_token_after:
  "length b < length ts \<Longrightarrow> length (advance_token b) < length ts"
  using advance_token_le [of b] by linarith

lemma parser_total: "All parser_dom"
  apply (rule "parseExpression_parseComparison_comparisonLoop_parseTerm_termLoop_parseFactor_factorLoop_parseUnary_parsePrimary_postfixLoop_parseCall_expressionsLoop_parseList_parseIndex.termination"
           [of "inv_image (less_than <*lex*> less_than) parser_measure"])
  apply (intro wf_inv_image wf_lex_prod wf_less_than)
  apply (auto simp: parser_measure_def intro!: advance_token_less
         dest: parse_progress_rules consume_less consume_le less_via_advance)
  apply (rule advance_token_after)
  apply (rule parse_progress_rules(1))
  apply assumption+
  done

termination parseExpression
  by (rule parser_total)

lemma parseExpression_progress:
  "parseExpression ts = Inr (r, ts') \<Longrightarrow> length ts' < length ts"
  using parse_progress_rules(1) parser_total by blast

declare parseExpression.simps [simp del] parseComparison.simps [simp del]
  comparisonLoop.simps [simp del] parseTerm.simps [simp del] termLoop.simps [simp del]
  parseFactor.simps [simp del] factorLoop.simps [simp del] parseUnary.simps [simp del]
  parsePrimary.simps [simp del] postfixLoop.simps [simp del] parseCall.simps [simp del]
  expressionsLoop.simps [simp del] parseList.simps [simp del] parseIndex.simps [simp del]


subsection \<open>Every parser function leaves a position at or behind the one it started from\<close>

text \<open>The position a parser function leaves, whether it returns or throws.\<close>

fun position :: "'a parse_result \<Rightarrow> Token list" where
  "position (Inl (message, ts)) = ts"
| "position (Inr (r, ts)) = ts"

lemma suffix_advance_token: "suffix (advance_token ts) ts"
  by (simp add: advance_token_def suffix_tl)

lemma suffix_consume: "suffix (position (consume t m ts)) ts"
  by (simp add: consume_def suffix_advance_token)

lemma suffix_step: "suffix b (advance_token ts) \<Longrightarrow> suffix b ts"
  using suffix_advance_token suffix_order.trans by blast

lemma suffix_after: "suffix b ts \<Longrightarrow> suffix (advance_token b) ts"
  using suffix_advance_token suffix_order.trans by blast

lemma position_bind:
  assumes "suffix (position r) ts"
    and "\<And>x ts1. r = Inr (x, ts1) \<Longrightarrow> suffix (position (k x ts1)) ts1"
  shows "suffix (position (case r of Inl e \<Rightarrow> Inl e | Inr (x, ts1) \<Rightarrow> k x ts1)) ts"
proof (cases r)
  case (Inl e)
  obtain m t where "e = (m, t)" by (cases e)
  then show ?thesis using assms(1) Inl by simp
next
  case (Inr p)
  obtain x ts1 where p: "p = (x, ts1)" by (cases p)
  have "suffix (position (k x ts1)) ts1"
    using assms(2) Inr p by simp
  moreover have "suffix ts1 ts"
    using assms(1) Inr p by simp
  ultimately show ?thesis
    using Inr p by (auto intro: suffix_order.trans)
qed

lemma position_Inr [simp]: "position (Inr (r, ts)) = ts"
  by simp

lemma position_suffix:
  shows "suffix (position (parseExpression ts)) ts"
    and "suffix (position (parseComparison ts)) ts"
    and "suffix (position (comparisonLoop expr ts)) ts"
    and "suffix (position (parseTerm ts)) ts"
    and "suffix (position (termLoop expr ts)) ts"
    and "suffix (position (parseFactor ts)) ts"
    and "suffix (position (factorLoop expr ts)) ts"
    and "suffix (position (parseUnary ts)) ts"
    and "suffix (position (parsePrimary ts)) ts"
    and "suffix (position (postfixLoop base_expr ts)) ts"
    and "suffix (position (parseCall callee ts)) ts"
    and "suffix (position (expressionsLoop acc ts)) ts"
    and "suffix (position (parseList ts)) ts"
    and "suffix (position (parseIndex array ts)) ts"
proof (induct rule: parseExpression_parseComparison_comparisonLoop_parseTerm_termLoop_parseFactor_factorLoop_parseUnary_parsePrimary_postfixLoop_parseCall_expressionsLoop_parseList_parseIndex.induct)
  case (1 ts)
  then show ?case by (simp add: parseExpression.simps)
next
  case (2 ts)
  show ?case
    by (subst parseComparison.simps) (rule position_bind, rule 2(1), simp add: 2(2))
next
  case (3 expr ts)
  show ?case
  proof (cases "tok_type (peek ts) = EQUAL \<or> tok_type (peek ts) = NOT_EQUAL
         \<or> tok_type (peek ts) = LESS \<or> tok_type (peek ts) = GREATER")
    case True
    have "suffix (position (case parseTerm (advance_token ts) of Inl e \<Rightarrow> Inl e
            | Inr (right, ts1) \<Rightarrow> comparisonLoop (BinaryExpr expr (tok_type (peek ts)) right) ts1))
          (advance_token ts)"
      by (rule position_bind, rule 3(1) [OF True], simp add: 3(2) [OF True])
    then show ?thesis
      using True by (subst comparisonLoop.simps) (simp add: suffix_step)
  next
    case False
    then show ?thesis by (subst comparisonLoop.simps) simp
  qed
next
  case (4 ts)
  show ?case
    by (subst parseTerm.simps) (rule position_bind, rule 4(1), simp add: 4(2))
next
  case (5 expr ts)
  show ?case
  proof (cases "tok_type (peek ts) = PLUS \<or> tok_type (peek ts) = MINUS")
    case True
    have "suffix (position (case parseFactor (advance_token ts) of Inl e \<Rightarrow> Inl e
            | Inr (right, ts1) \<Rightarrow> termLoop (BinaryExpr expr (tok_type (peek ts)) right) ts1))
          (advance_token ts)"
      by (rule position_bind, rule 5(1) [OF True], simp add: 5(2) [OF True])
    then show ?thesis
      using True by (subst termLoop.simps) (simp add: suffix_step)
  next
    case False
    then show ?thesis by (subst termLoop.simps) simp
  qed
next
  case (6 ts)
  show ?case
    by (subst parseFactor.simps) (rule position_bind, rule 6(1), simp add: 6(2))
next
  case (7 expr ts)
  show ?case
  proof (cases "tok_type (peek ts) = MULTIPLY \<or> tok_type (peek ts) = DIVIDE
         \<or> tok_type (peek ts) = MODULO")
    case True
    have "suffix (position (case parseUnary (advance_token ts) of Inl e \<Rightarrow> Inl e
            | Inr (right, ts1) \<Rightarrow> factorLoop (BinaryExpr expr (tok_type (peek ts)) right) ts1))
          (advance_token ts)"
      by (rule position_bind, rule 7(1) [OF True], simp add: 7(2) [OF True])
    then show ?thesis
      using True by (subst factorLoop.simps) (simp add: suffix_step)
  next
    case False
    then show ?thesis by (subst factorLoop.simps) simp
  qed
next
  case (8 ts)
  then show ?case by (simp add: parseUnary.simps)
next
  case (9 ts)
  consider (lit) "tok_type (peek ts) \<in> {NUMBER, STRING, F_STRING, TRUE, FALSE}"
    | (lst) "tok_type (peek ts) = LBRACKET"
    | (ident) "tok_type (peek ts) = IDENTIFIER"
    | (paren) "tok_type (peek ts) = LPAREN"
    | (other) "tok_type (peek ts) \<notin> {NUMBER, STRING, F_STRING, TRUE, FALSE, LBRACKET, IDENTIFIER, LPAREN}"
    by auto
  then show ?case
  proof cases
    case lit
    then show ?thesis
      by (subst parsePrimary.simps) (auto simp: suffix_advance_token)
  next
    case lst
    then show ?thesis
      using 9(1) by (subst parsePrimary.simps) simp
  next
    case ident
    then show ?thesis
      using 9(2) by (subst parsePrimary.simps) (simp add: suffix_step)
  next
    case paren
    have "suffix (position (case parseExpression (advance_token ts) of Inl e \<Rightarrow> Inl e
            | Inr (expr, ts1) \<Rightarrow>
                (case consume RPAREN ''Expected ')' after expression'' ts1 of
                   Inl e \<Rightarrow> Inl e
                 | Inr (t, ts2) \<Rightarrow> Inr (expr, ts2)))) (advance_token ts)"
      using paren
      by (intro position_bind 9(3) suffix_consume) simp_all
    then show ?thesis
      using paren by (subst parsePrimary.simps) (simp add: suffix_step)
  next
    case other
    then show ?thesis
      by (subst parsePrimary.simps) simp
  qed
next
  case (10 base_expr ts)
  consider (call) "tok_type (peek ts) = LPAREN"
    | (index) "tok_type (peek ts) = LBRACKET"
    | (other) "tok_type (peek ts) \<noteq> LPAREN" "tok_type (peek ts) \<noteq> LBRACKET"
    by auto
  then show ?case
  proof cases
    case call
    then show ?thesis
      using 10(1) by (subst postfixLoop.simps) (simp add: suffix_step)
  next
    case index
    have "suffix (position (case parseIndex base_expr ts of Inl e \<Rightarrow> Inl e
            | Inr (indexed, ts1) \<Rightarrow> postfixLoop indexed ts1)) ts"
      using index by (intro position_bind 10(2) 10(3)) simp_all
    then show ?thesis
      using index by (subst postfixLoop.simps) simp
  next
    case other
    then show ?thesis
      by (subst postfixLoop.simps) simp
  qed
next
  case (11 callee ts)
  show ?case
  proof (cases "tok_type (peek ts) = RPAREN")
    case True
    then show ?thesis
      by (subst parseCall.simps) (simp add: suffix_advance_token)
  next
    case False
    have "suffix (position (case expressionsLoop [] ts of Inl e \<Rightarrow> Inl e
            | Inr (arguments, ts1) \<Rightarrow>
                (case consume RPAREN ''Expected ')' after arguments'' ts1 of
                   Inl e \<Rightarrow> Inl e
                 | Inr (t, ts2) \<Rightarrow> Inr (CallExpr callee arguments, ts2)))) ts"
      using False by (intro position_bind 11 suffix_consume) simp_all
    then show ?thesis
      using False by (subst parseCall.simps) simp
  qed
next
  case (12 acc ts)
  have "suffix (position (case parseExpression ts of Inl e \<Rightarrow> Inl e
          | Inr (expr, ts1) \<Rightarrow>
              if tok_type (peek ts1) = COMMA
              then expressionsLoop (acc @ [expr]) (advance_token ts1)
              else Inr (acc @ [expr], ts1))) ts"
  proof (rule position_bind, rule 12(1))
    fix x ts1
    assume r: "parseExpression ts = Inr (x, ts1)"
    show "suffix (position (if tok_type (peek ts1) = COMMA
              then expressionsLoop (acc @ [x]) (advance_token ts1)
              else Inr (acc @ [x], ts1))) ts1"
      using 12(2) [OF r refl] by (simp add: suffix_step)
  qed
  then show ?case
    by (subst expressionsLoop.simps)
next
  case (13 ts)
  have "suffix (position (case consume LBRACKET ''Expected '[' for list'' ts of
        Inl e \<Rightarrow> Inl e
      | Inr (t, ts1) \<Rightarrow>
          if tok_type (peek ts1) = RBRACKET
          then Inr (ListExpr [], advance_token ts1)
          else (case expressionsLoop [] ts1 of
                  Inl e \<Rightarrow> Inl e
                | Inr (elements, ts2) \<Rightarrow>
                    (case consume RBRACKET ''Expected ']' after list elements'' ts2 of
                       Inl e \<Rightarrow> Inl e
                     | Inr (t, ts3) \<Rightarrow> Inr (ListExpr elements, ts3))))) ts"
  proof (rule position_bind, rule suffix_consume)
    fix x ts1
    assume r: "consume LBRACKET ''Expected '[' for list'' ts = Inr (x, ts1)"
    show "suffix (position (if tok_type (peek ts1) = RBRACKET
          then Inr (ListExpr [], advance_token ts1)
          else (case expressionsLoop [] ts1 of
                  Inl e \<Rightarrow> Inl e
                | Inr (elements, ts2) \<Rightarrow>
                    (case consume RBRACKET ''Expected ']' after list elements'' ts2 of
                       Inl e \<Rightarrow> Inl e
                     | Inr (t, ts3) \<Rightarrow> Inr (ListExpr elements, ts3))))) ts1"
    proof (cases "tok_type (peek ts1) = RBRACKET")
      case True
      then show ?thesis by (simp add: suffix_advance_token)
    next
      case False
      have "suffix (position (case expressionsLoop [] ts1 of
                  Inl e \<Rightarrow> Inl e
                | Inr (elements, ts2) \<Rightarrow>
                    (case consume RBRACKET ''Expected ']' after list elements'' ts2 of
                       Inl e \<Rightarrow> Inl e
                     | Inr (t, ts3) \<Rightarrow> Inr (ListExpr elements, ts3)))) ts1"
        by (intro position_bind 13 [OF r refl False] suffix_consume) simp_all
      then show ?thesis using False by simp
    qed
  qed
  then show ?case
    by (subst parseList.simps)
next
  case (14 array ts)
  have "suffix (position (case consume LBRACKET ''Expected '[' for index'' ts of
        Inl e \<Rightarrow> Inl e
      | Inr (t, ts1) \<Rightarrow>
          (case parseExpression ts1 of
             Inl e \<Rightarrow> Inl e
           | Inr (index, ts2) \<Rightarrow>
               (case consume RBRACKET ''Expected ']' after index'' ts2 of
                  Inl e \<Rightarrow> Inl e
                | Inr (t, ts3) \<Rightarrow> Inr (IndexExpr array index, ts3))))) ts"
  proof (rule position_bind, rule suffix_consume)
    fix x ts1
    assume r: "consume LBRACKET ''Expected '[' for index'' ts = Inr (x, ts1)"
    show "suffix (position (case parseExpression ts1 of
             Inl e \<Rightarrow> Inl e
           | Inr (index, ts2) \<Rightarrow>
               (case consume RBRACKET ''Expected ']' after index'' ts2 of
                  Inl e \<Rightarrow> Inl e
                | Inr (t, ts3) \<Rightarrow> Inr (IndexExpr array index, ts3)))) ts1"
      by (intro position_bind 14 [OF r refl] suffix_consume) simp_all
  qed
  then show ?case
    by (subst parseIndex.simps)
qed


subsection \<open>Statements\<close>

function printArgsLoop :: "expr list \<Rightarrow> Token list \<Rightarrow> (expr list) parse_result" where
  "printArgsLoop expressions ts =
     (if tok_type (peek ts) = COMMA
      then (case parseExpression (advance_token ts) of
              Inl e \<Rightarrow> Inl e
            | Inr (expr, ts1) \<Rightarrow> printArgsLoop (expressions @ [expr]) ts1)
      else Inr (expressions, ts))"
  by pat_completeness auto
termination
proof (relation "measure (\<lambda>(es, ts). length ts)", goal_cases)
  case 1
  show ?case by simp
next
  case (2 expressions ts x expr ts1)
  then have "length ts1 < length (advance_token ts)"
    by (auto dest: parseExpression_progress)
  then show ?case
    using advance_token_le [of ts] by simp
qed

declare printArgsLoop.simps [simp del]

definition parsePrintStatement :: "Token list \<Rightarrow> stmt parse_result" where
  "parsePrintStatement ts =
     (case consume PRINT (''Expected 'print'' @ [squote]) ts of
        Inl e \<Rightarrow> Inl e
      | Inr (t, ts1) \<Rightarrow>
          (case consume LPAREN (''Expected '(' after 'print'' @ [squote]) ts1 of
             Inl e \<Rightarrow> Inl e
           | Inr (t, ts2) \<Rightarrow>
               (case (if tok_type (peek ts2) \<noteq> RPAREN
                      then (case parseExpression ts2 of
                              Inl e \<Rightarrow> Inl e
                            | Inr (expr, ts3) \<Rightarrow> printArgsLoop [expr] ts3)
                      else Inr ([], ts2)) of
                  Inl e \<Rightarrow> Inl e
                | Inr (expressions, ts4) \<Rightarrow>
                    (case consume RPAREN ''Expected ')' after print arguments'' ts4 of
                       Inl e \<Rightarrow> Inl e
                     | Inr (t, ts5) \<Rightarrow> Inr (PrintStmt expressions, ts5)))))"

definition parseAssignmentStatement :: "Token list \<Rightarrow> stmt parse_result" where
  "parseAssignmentStatement ts =
     (case consume IDENTIFIER ''Expected identifier'' ts of
        Inl e \<Rightarrow> Inl e
      | Inr (identifier, ts1) \<Rightarrow>
          (case consume ASSIGN ''Expected '=' after identifier'' ts1 of
             Inl e \<Rightarrow> Inl e
           | Inr (t, ts2) \<Rightarrow>
               (case parseExpression ts2 of
                  Inl e \<Rightarrow> Inl e
                | Inr (v, ts3) \<Rightarrow> Inr (AssignStmt (tok_value identifier) v, ts3))))"

text \<open>\<^verbatim>\<open>current + 1 < tokens.size() && tokens[current + 1].type == ASSIGN\<close>\<close>

fun nextIsAssign :: "Token list \<Rightarrow> bool" where
  "nextIsAssign (t # u # ts) = (tok_type u = ASSIGN)"
| "nextIsAssign ts = False"

text \<open>The optional \<^verbatim>\<open>as\<close> clause of a with-statement: the bound name, or the empty string.\<close>

definition parseAsClause :: "Token list \<Rightarrow> string parse_result" where
  "parseAsClause ts =
     (if tok_type (peek ts) = AS
      then (case consume IDENTIFIER (''Expected identifier after 'as'' @ [squote])
                   (advance_token ts) of
              Inl e \<Rightarrow> Inl e
            | Inr (var_token, ts1) \<Rightarrow> Inr (tok_value var_token, ts1))
      else Inr ([], ts))"

function
  parseStatement :: "Token list \<Rightarrow> stmt parse_result" and
  parseWithStatement :: "Token list \<Rightarrow> stmt parse_result" and
  withBodyLoop :: "stmt list \<Rightarrow> Token list \<Rightarrow> (stmt list) parse_result"
where
  "parseStatement ts =
     (if tok_type (peek ts) = PRINT then parsePrintStatement ts
      else if tok_type (peek ts) = WITH then parseWithStatement ts
      else if tok_type (peek ts) = IDENTIFIER \<and> nextIsAssign ts
        then parseAssignmentStatement ts
      else (case parseExpression ts of
              Inl e \<Rightarrow> Inl e
            | Inr (expr, ts1) \<Rightarrow> Inr (ExprStmt expr, ts1)))"
| "parseWithStatement ts =
     (case consume WITH (''Expected 'with'' @ [squote]) ts of
        Inl e \<Rightarrow> Inl e
      | Inr (t, ts1) \<Rightarrow>
          (case parseExpression ts1 of
             Inl e \<Rightarrow> Inl e
           | Inr (context_expr, ts2) \<Rightarrow>
               (case parseAsClause ts2 of
                  Inl e \<Rightarrow> Inl e
                | Inr (optional_vars, ts3) \<Rightarrow>
                    (case consume COLON ''Expected ':' after with statement'' ts3 of
                       Inl e \<Rightarrow> Inl e
                     | Inr (t, ts4) \<Rightarrow>
                         (case consume NEWLINE ''Expected newline after with statement'' ts4 of
                            Inl e \<Rightarrow> Inl e
                          | Inr (t, ts5) \<Rightarrow>
                              (case withBodyLoop [] ts5 of
                                 Inl e \<Rightarrow> Inl e
                               | Inr (body, ts6) \<Rightarrow>
                                   Inr (WithStmt context_expr optional_vars body, ts6)))))))"
| "withBodyLoop body ts =
     (if \<not> isAtEnd ts \<and> tok_type (peek ts) \<noteq> NEWLINE \<and> tok_type (peek ts) \<noteq> EOF_TOKEN
      then (case parseStatement ts of
              Inl e \<Rightarrow> Inl e
            | Inr (s, ts1) \<Rightarrow>
                withBodyLoop (body @ [s])
                  (if tok_type (peek ts1) = NEWLINE then advance_token ts1 else ts1))
      else Inr (body, ts))"
  by pat_completeness auto

lemma suffix_length_le': "suffix (position r) ts \<Longrightarrow> r = Inr (x, ts') \<Longrightarrow> length ts' \<le> length ts"
  by (auto dest: suffix_length_le)

lemma printArgsLoop_suffix: "suffix (position (printArgsLoop expressions ts)) ts"
proof (induct expressions ts rule: printArgsLoop.induct)
  case (1 expressions ts)
  show ?case
  proof (cases "tok_type (peek ts) = COMMA")
    case True
    have "suffix (position (case parseExpression (advance_token ts) of
              Inl e \<Rightarrow> Inl e
            | Inr (expr, ts1) \<Rightarrow> printArgsLoop (expressions @ [expr]) ts1)) (advance_token ts)"
      by (intro position_bind position_suffix(1) 1 [OF True]) simp_all
    then show ?thesis
      using True by (subst printArgsLoop.simps) (simp add: suffix_step)
  next
    case False
    then show ?thesis by (subst printArgsLoop.simps) simp
  qed
qed

lemma printArgsLoop_le:
  "printArgsLoop expressions ts = Inr (r, ts') \<Longrightarrow> length ts' \<le> length ts"
  using printArgsLoop_suffix [of expressions ts] by (auto dest: suffix_length_le)

lemma consume_Inr:
  "consume t m ts = Inr (x, ts') \<longleftrightarrow> tok_type (peek ts) = t \<and> x = peek ts \<and> ts' = advance_token ts"
  by (auto simp: consume_def)

lemma printArguments_suffix:
  "suffix (position (if tok_type (peek ts) \<noteq> RPAREN
                      then (case parseExpression ts of
                              Inl e \<Rightarrow> Inl e
                            | Inr (expr, ts3) \<Rightarrow> printArgsLoop [expr] ts3)
                      else Inr ([], ts))) ts"
proof (cases "tok_type (peek ts) \<noteq> RPAREN")
  case True
  have "suffix (position (case parseExpression ts of
                              Inl e \<Rightarrow> Inl e
                            | Inr (expr, ts3) \<Rightarrow> printArgsLoop [expr] ts3)) ts"
    by (intro position_bind position_suffix(1) printArgsLoop_suffix)
  then show ?thesis using True by simp
next
  case False
  then show ?thesis by simp
qed

lemma parsePrintStatement_progress:
  assumes "parsePrintStatement ts = Inr (r, ts')"
  shows "length ts' < length ts"
proof -
  obtain t ts1 where a: "consume PRINT (''Expected 'print'' @ [squote]) ts = Inr (t, ts1)"
    using assms by (auto simp: parsePrintStatement_def split: sum.splits prod.splits)
  then obtain t2 ts2 where
    b: "consume LPAREN (''Expected '(' after 'print'' @ [squote]) ts1 = Inr (t2, ts2)"
    using assms by (auto simp: parsePrintStatement_def split: sum.splits prod.splits)
  let ?args = "if tok_type (peek ts2) \<noteq> RPAREN
                      then (case parseExpression ts2 of
                              Inl e \<Rightarrow> Inl e
                            | Inr (expr, ts3) \<Rightarrow> printArgsLoop [expr] ts3)
                      else Inr ([], ts2)"
  obtain es ts4 where c: "?args = Inr (es, ts4)"
    using assms a b by (auto simp: parsePrintStatement_def split: sum.splits prod.splits)
  then obtain t5 where
    d: "consume RPAREN ''Expected ')' after print arguments'' ts4 = Inr (t5, ts')"
    using assms a b by (auto simp: parsePrintStatement_def split: sum.splits prod.splits)
  have "suffix (position ?args) ts2"
    by (rule printArguments_suffix)
  then have "length ts4 \<le> length ts2"
    using c by (auto dest: suffix_length_le)
  then show ?thesis
    using consume_less [OF a] consume_le [OF b] consume_le [OF d] by simp
qed

lemma parseAssignmentStatement_progress:
  assumes "parseAssignmentStatement ts = Inr (r, ts')"
  shows "length ts' < length ts"
proof -
  obtain t ts1 where a: "consume IDENTIFIER ''Expected identifier'' ts = Inr (t, ts1)"
    using assms by (auto simp: parseAssignmentStatement_def split: sum.splits prod.splits)
  then obtain t2 ts2 where b: "consume ASSIGN ''Expected '=' after identifier'' ts1 = Inr (t2, ts2)"
    using assms by (auto simp: parseAssignmentStatement_def split: sum.splits prod.splits)
  then obtain v where c: "parseExpression ts2 = Inr (v, ts')"
    using assms a by (auto simp: parseAssignmentStatement_def split: sum.splits prod.splits)
  show ?thesis
    using consume_less [OF a] consume_le [OF b] parseExpression_progress [OF c] by simp
qed

lemma parseAsClause_le:
  "parseAsClause ts = Inr (r, ts') \<Longrightarrow> length ts' \<le> length ts"
  using advance_token_le [of ts]
  by (auto simp: parseAsClause_def split: sum.splits prod.splits if_splits
      dest!: consume_le)

abbreviation statement_dom where
  "statement_dom \<equiv> parseStatement_parseWithStatement_withBodyLoop_dom"

lemma statement_progress:
  shows "statement_dom (Inl ts)
      \<Longrightarrow> \<forall>r ts'. parseStatement ts = Inr (r, ts') \<longrightarrow> length ts' < length ts"
    and "statement_dom (Inr (Inl ts))
      \<Longrightarrow> \<forall>r ts'. parseWithStatement ts = Inr (r, ts') \<longrightarrow> length ts' < length ts"
    and "statement_dom (Inr (Inr (body, ts)))
      \<Longrightarrow> \<forall>r ts'. withBodyLoop body ts = Inr (r, ts') \<longrightarrow> length ts' \<le> length ts"
proof (induct rule: parseStatement_parseWithStatement_withBodyLoop.pinduct)
  case (1 ts)
  note dom = 1(1)
  show ?case
  proof (intro allI impI)
    fix r ts'
    assume eq: "parseStatement ts = Inr (r, ts')"
    show "length ts' < length ts"
    proof (cases "tok_type (peek ts) \<noteq> PRINT \<and> tok_type (peek ts) = WITH")
      case True
      then show ?thesis
        using eq 1(2) by (simp add: parseStatement.psimps [OF dom])
    next
      case False
      then show ?thesis
        using eq
        by (auto simp: parseStatement.psimps [OF dom] split: if_splits sum.splits prod.splits
            dest: parsePrintStatement_progress parseAssignmentStatement_progress
                  parseExpression_progress)
    qed
  qed
next
  case (2 ts)
  note dom = 2(1)
  show ?case
  proof (intro allI impI)
    fix r ts'
    assume eq: "parseWithStatement ts = Inr (r, ts')"
    then obtain t1 ts1 c ts2 v ts3 t4 ts4 t5 ts5 body where
          a: "consume WITH (''Expected 'with'' @ [squote]) ts = Inr (t1, ts1)"
      and b: "parseExpression ts1 = Inr (c, ts2)"
      and c: "parseAsClause ts2 = Inr (v, ts3)"
      and d: "consume COLON ''Expected ':' after with statement'' ts3 = Inr (t4, ts4)"
      and e: "consume NEWLINE ''Expected newline after with statement'' ts4 = Inr (t5, ts5)"
      and f: "withBodyLoop [] ts5 = Inr (body, ts')"
      by (auto simp: parseWithStatement.psimps [OF dom] split: sum.splits prod.splits)
    have "length ts' \<le> length ts5"
      using 2(2) [OF a refl b refl c refl d refl e refl] f by simp
    then show "length ts' < length ts"
      using consume_less [OF a] parseExpression_progress [OF b] parseAsClause_le [OF c]
        consume_le [OF d] consume_le [OF e] by simp
  qed
next
  case (3 body ts)
  note dom = 3(1)
  show ?case
  proof (intro allI impI)
    fix r ts'
    assume eq: "withBodyLoop body ts = Inr (r, ts')"
    show "length ts' \<le> length ts"
    proof (cases "\<not> isAtEnd ts \<and> tok_type (peek ts) \<noteq> NEWLINE \<and> tok_type (peek ts) \<noteq> EOF_TOKEN")
      case True
      then obtain s ts1 where p: "parseStatement ts = Inr (s, ts1)"
        and l: "withBodyLoop (body @ [s])
                  (if tok_type (peek ts1) = NEWLINE then advance_token ts1 else ts1) = Inr (r, ts')"
        using eq by (auto simp: withBodyLoop.psimps [OF dom] split: sum.splits prod.splits)
      have "length ts1 < length ts"
        using 3(2) [OF True] p by simp
      moreover have "length ts' \<le> length (if tok_type (peek ts1) = NEWLINE then advance_token ts1 else ts1)"
        using 3(3) [OF True p refl] l by simp
      ultimately show ?thesis
        using advance_token_le [of ts1] by (auto split: if_splits)
    next
      case False
      have "withBodyLoop body ts = Inr (body, ts)"
        by (subst withBodyLoop.psimps [OF dom]) (simp only: False if_False)
      then show ?thesis
        using eq by simp
    qed
  qed
qed

lemmas statement_progress_rules = statement_progress [rule_format]

definition statement_measure where
  "statement_measure =
     case_sum (\<lambda>ts. (length ts, 1::nat))
       (case_sum (\<lambda>ts. (length ts, 0)) (\<lambda>(body::stmt list, ts::Token list). (length ts, 2)))"

lemma statement_total: "All statement_dom"
  apply (rule "parseStatement_parseWithStatement_withBodyLoop.termination"
           [of "inv_image (less_than <*lex*> less_than) statement_measure"])
  apply (intro wf_inv_image wf_lex_prod wf_less_than)
  apply (auto simp: statement_measure_def
         dest!: statement_progress_rules consume_less consume_le parseExpression_progress
                parseAsClause_le)
  apply (rule advance_token_after, assumption)
  done

termination parseStatement
  by (rule statement_total)

declare parseStatement.simps [simp del] parseWithStatement.simps [simp del]
  withBodyLoop.simps [simp del]

lemma parseStatement_progress:
  "parseStatement ts = Inr (r, ts') \<Longrightarrow> length ts' < length ts"
  using statement_progress_rules(1) statement_total by blast

lemma parsePrintStatement_suffix: "suffix (position (parsePrintStatement ts)) ts"
  unfolding parsePrintStatement_def
  by (intro position_bind suffix_consume printArguments_suffix) simp_all

lemma parseAssignmentStatement_suffix: "suffix (position (parseAssignmentStatement ts)) ts"
  unfolding parseAssignmentStatement_def
  by (intro position_bind suffix_consume position_suffix(1)) simp_all

lemma parseAsClause_suffix: "suffix (position (parseAsClause ts)) ts"
proof (cases "tok_type (peek ts) = AS")
  case True
  have "suffix (position (case consume IDENTIFIER (''Expected identifier after 'as'' @ [squote])
                   (advance_token ts) of
              Inl e \<Rightarrow> Inl e
            | Inr (var_token, ts1) \<Rightarrow> Inr (tok_value var_token, ts1))) (advance_token ts)"
    by (intro position_bind suffix_consume) simp_all
  then show ?thesis
    using True by (simp add: parseAsClause_def suffix_step)
next
  case False
  then show ?thesis by (simp add: parseAsClause_def)
qed

lemma statement_suffix:
  shows "suffix (position (parseStatement ts)) ts"
    and "suffix (position (parseWithStatement ts)) ts"
    and "suffix (position (withBodyLoop body ts)) ts"
proof (induct rule: parseStatement_parseWithStatement_withBodyLoop.induct)
  case (1 ts)
  have e: "suffix (position (case parseExpression ts of
              Inl e \<Rightarrow> Inl e
            | Inr (expr, ts1) \<Rightarrow> Inr (ExprStmt expr, ts1))) ts"
    by (intro position_bind position_suffix(1)) simp_all
  show ?case
    using 1 e
    by (subst parseStatement.simps)
       (simp add: parsePrintStatement_suffix parseAssignmentStatement_suffix)
next
  case (2 ts)
  show ?case
    by (subst parseWithStatement.simps)
       (intro position_bind suffix_consume position_suffix(1) parseAsClause_suffix 2; simp)
next
  case (3 body ts)
  show ?case
  proof (cases "\<not> isAtEnd ts \<and> tok_type (peek ts) \<noteq> NEWLINE \<and> tok_type (peek ts) \<noteq> EOF_TOKEN")
    case True
    have "suffix (position (case parseStatement ts of
              Inl e \<Rightarrow> Inl e
            | Inr (s, ts1) \<Rightarrow>
                withBodyLoop (body @ [s])
                  (if tok_type (peek ts1) = NEWLINE then advance_token ts1 else ts1))) ts"
    proof (rule position_bind, rule 3(1) [OF True])
      fix x ts1
      assume r: "parseStatement ts = Inr (x, ts1)"
      show "suffix (position (withBodyLoop (body @ [x])
                  (if tok_type (peek ts1) = NEWLINE then advance_token ts1 else ts1))) ts1"
        using 3(2) [OF True r refl] by (auto simp: suffix_step split: if_splits)
    qed
    moreover have "(\<not> isAtEnd ts \<and> tok_type (peek ts) \<noteq> NEWLINE \<and> tok_type (peek ts) \<noteq> EOF_TOKEN) = True"
      using True by simp
    ultimately show ?thesis
      by (subst withBodyLoop.simps) (simp only: if_True)
  next
    case False
    show ?thesis
      by (subst withBodyLoop.simps) (simp only: False if_False position.simps suffix_order.refl)
  qed
qed


subsection \<open>Parser::parse\<close>

text \<open>The recovery loop of the catch block: skip to the next NEWLINE or EOF token.\<close>

function skipToLineEnd :: "Token list \<Rightarrow> Token list" where
  "skipToLineEnd ts =
     (if \<not> isAtEnd ts \<and> tok_type (peek ts) \<noteq> NEWLINE \<and> tok_type (peek ts) \<noteq> EOF_TOKEN
      then skipToLineEnd (advance_token ts) else ts)"
  by pat_completeness auto
termination
  by (relation "measure length") (auto intro: advance_token_less)

declare skipToLineEnd.simps [simp del]

text \<open>\<^verbatim>\<open>if (peek().type == TokenType::NEWLINE) advance();\<close>\<close>

definition skipNewline :: "Token list \<Rightarrow> Token list" where
  "skipNewline ts = (if tok_type (peek ts) = NEWLINE then advance_token ts else ts)"

lemma skipToLineEnd_suffix: "suffix (skipToLineEnd ts) ts"
proof (induct ts rule: skipToLineEnd.induct)
  case (1 ts)
  then show ?case
    by (subst skipToLineEnd.simps) (auto simp: suffix_step)
qed

lemma skipNewline_suffix: "suffix (skipNewline ts) ts"
  by (simp add: skipNewline_def suffix_advance_token)

lemma skipToLineEnd_less:
  assumes "tok_type (peek ts) \<noteq> NEWLINE" and "tok_type (peek ts) \<noteq> EOF_TOKEN"
  shows "length (skipToLineEnd ts) < length ts"
proof -
  have "skipToLineEnd ts = skipToLineEnd (advance_token ts)"
    using assms by (subst skipToLineEnd.simps) (simp add: isAtEnd_def)
  then have "length (skipToLineEnd ts) \<le> length (advance_token ts)"
    using skipToLineEnd_suffix [of "advance_token ts"] by (simp add: suffix_length_le)
  then show ?thesis
    using advance_token_less [OF assms(2)] by simp
qed

lemma recover_less:
  assumes "suffix ts1 ts"
    and "tok_type (peek ts) \<noteq> NEWLINE" and "tok_type (peek ts) \<noteq> EOF_TOKEN"
  shows "length (skipNewline (skipToLineEnd ts1)) < length ts"
proof (cases "ts1 = ts")
  case True
  have "length (skipNewline (skipToLineEnd ts)) \<le> length (skipToLineEnd ts)"
    by (rule suffix_length_le) (rule skipNewline_suffix)
  then show ?thesis
    using skipToLineEnd_less [OF assms(2,3)] True by simp
next
  case False
  have "length ts1 \<le> length ts"
    using assms(1) by (rule suffix_length_le)
  moreover have "length ts1 \<noteq> length ts"
    using assms(1) False by (auto simp: suffix_def)
  moreover have "length (skipNewline (skipToLineEnd ts1)) \<le> length ts1"
    using skipNewline_suffix [of "skipToLineEnd ts1"] skipToLineEnd_suffix [of ts1]
    by (meson suffix_length_le suffix_order.trans)
  ultimately show ?thesis by simp
qed

function parseLoop :: "Token list \<Rightarrow> stmt list" where
  "parseLoop ts =
     (if \<not> isAtEnd ts then
        (if tok_type (peek ts) = NEWLINE then parseLoop (advance_token ts)
         else if tok_type (peek ts) = EOF_TOKEN then []
         else (case parseStatement ts of
                 Inr (s, ts1) \<Rightarrow> s # parseLoop (skipNewline ts1)
               | Inl (message, ts1) \<Rightarrow> parseLoop (skipNewline (skipToLineEnd ts1))))
      else [])"
  by pat_completeness auto
termination
proof (relation "measure length", goal_cases)
  case 1
  show ?case by simp
next
  case (2 ts)
  then show ?case by (simp add: advance_token_less)
next
  case (3 ts p message ts1)
  then have "parseStatement ts = Inl (message, ts1)"
    by simp
  then have "suffix ts1 ts"
    using statement_suffix(1) [of ts] by simp
  then show ?case
    using 3 by (simp add: recover_less)
next
  case (4 ts p s ts1)
  then have "length ts1 < length ts"
    by (auto dest: parseStatement_progress)
  moreover have "length (skipNewline ts1) \<le> length ts1"
    by (rule suffix_length_le) (rule skipNewline_suffix)
  ultimately show ?case by simp
qed

declare parseLoop.simps [simp del]

definition parse :: "Token list \<Rightarrow> stmt list" where
  "parse tokens = parseLoop tokens"



section \<open>Properties of the tokenizer\<close>

text \<open>A character for which the loop of \<^verbatim>\<open>tokenize\<close> has no rule: it reaches the
  \<^verbatim>\<open>default\<close> branch of the switch.\<close>

definition unrecognised :: "char \<Rightarrow> bool" where
  "unrecognised c =
     (\<not> isspace c \<and> c \<noteq> NUL \<and> \<not> isdigit c \<and> \<not> isalpha c
      \<and> c \<notin> set ''#_+-*/%=!<>(){}[],.:;'' \<and> c \<noteq> dquote \<and> c \<noteq> squote)"

lemma tokenizeLoop_last:
  "tokenizeLoop L \<noteq> [] \<and> tok_type (last (tokenizeLoop L)) = EOF_TOKEN"
proof (induct L rule: tokenizeLoop.induct)
  case (1 L)
  show ?case
  proof (cases "unread L = []")
    case True
    then show ?thesis
      by (subst (1 2) tokenizeLoop.simps) (simp add: mkToken_def)
  next
    case False
    note ne = this
    show ?thesis
    proof (cases "currentChar (skipSpaces L) = NUL")
      case True
      then show ?thesis
        using ne by (subst (1 2) tokenizeLoop.simps) (simp add: mkToken_def Let_def)
    next
      case False
      obtain ts L2 where s: "lexStep (skipSpaces L) = (ts, L2)"
        by (cases "lexStep (skipSpaces L)")
      have ih: "tokenizeLoop L2 \<noteq> [] \<and> tok_type (last (tokenizeLoop L2)) = EOF_TOKEN"
        using 1 [OF ne refl False s [symmetric]] .
      have "tokenizeLoop L = ts @ tokenizeLoop L2"
        using ne False s by (subst tokenizeLoop.simps) (simp add: Let_def)
      then show ?thesis
        using ih by simp
    qed
  qed
qed

lemma skipSpaces_id: "\<not> isspace (currentChar L) \<Longrightarrow> skipSpaces L = L"
  by (subst skipSpaces.simps) simp

lemma lexStep_unrecognised:
  "unrecognised c \<Longrightarrow> lexStep (c # cs, l, k) = ([], (cs, l, k + 1))"
  by (simp add: lexStep_def unrecognised_def isspace_def)

lemma tokenizeLoop_unrecognised:
  assumes "unrecognised c"
  shows "tokenizeLoop (c # cs, l, k) = tokenizeLoop (cs, l, k + 1)"
proof -
  have "skipSpaces (c # cs, l, k) = (c # cs, l, k)"
    using assms by (intro skipSpaces_id) (simp add: unrecognised_def)
  moreover have "c \<noteq> NUL"
    using assms by (simp add: unrecognised_def)
  ultimately show ?thesis
    using lexStep_unrecognised [OF assms]
    by (subst tokenizeLoop.simps) (simp add: Let_def)
qed

lemma lexStep_bang:
  "peekChar (CHR ''!'' # cs, l, k) \<noteq> CHR ''=''
   \<Longrightarrow> lexStep (CHR ''!'' # cs, l, k) = ([], (cs, l, k + 1))"
  by (simp add: lexStep_def isdigit_def isalpha_def)

lemma tokenizeLoop_bang:
  assumes "peekChar (CHR ''!'' # cs, l, k) \<noteq> CHR ''=''"
  shows "tokenizeLoop (CHR ''!'' # cs, l, k) = tokenizeLoop (cs, l, k + 1)"
proof -
  have "skipSpaces (CHR ''!'' # cs, l, k) = (CHR ''!'' # cs, l, k)"
    by (intro skipSpaces_id) (simp add: isspace_def)
  then show ?thesis
    using lexStep_bang [OF assms]
    by (subst tokenizeLoop.simps) (simp add: Let_def)
qed


section \<open>Numbers\<close>

text \<open>
  A \<^verbatim>\<open>Number\<close> holds a C++ \<^verbatim>\<open>double\<close>. The model keeps the value of a finite double as
  a real number and has the two infinities, NaN and the negative zero beside it
  (\<open>Fin 0\<close> is the positive zero). Arithmetic follows IEEE 754 on these, with one
  abstraction: results are exact, they are not rounded to 53 bits, and a finite result
  never overflows or underflows. Where all values are integers below \<open>2^53\<close> the model and
  the machine agree.
\<close>

datatype double = Fin real | NegZero | PInf | NInf | NaN

fun signbit :: "double \<Rightarrow> bool" where
  "signbit (Fin r) = (r < 0)"
| "signbit NegZero = True"
| "signbit PInf = False"
| "signbit NInf = True"
| "signbit NaN = False"

fun finite_value :: "double \<Rightarrow> real option" where
  "finite_value (Fin r) = Some r"
| "finite_value NegZero = Some 0"
| "finite_value d = None"

definition infinity :: "bool \<Rightarrow> double" where
  "infinity negative = (if negative then NInf else PInf)"

text \<open>A finite result with its sign: a zero keeps the sign the operation gives it.\<close>

definition signed :: "bool \<Rightarrow> real \<Rightarrow> double" where
  "signed negative r = (if r = 0 then (if negative then NegZero else Fin 0) else Fin r)"

fun dneg :: "double \<Rightarrow> double" where
  "dneg (Fin r) = (if r = 0 then NegZero else Fin (- r))"
| "dneg NegZero = Fin 0"
| "dneg PInf = NInf"
| "dneg NInf = PInf"
| "dneg NaN = NaN"

fun dadd :: "double \<Rightarrow> double \<Rightarrow> double" where
  "dadd NaN b = NaN"
| "dadd a NaN = NaN"
| "dadd PInf NInf = NaN"
| "dadd NInf PInf = NaN"
| "dadd PInf b = PInf"
| "dadd NInf b = NInf"
| "dadd a PInf = PInf"
| "dadd a NInf = NInf"
| "dadd NegZero NegZero = NegZero"
| "dadd NegZero (Fin b) = Fin b"
| "dadd (Fin a) NegZero = Fin a"
| "dadd (Fin a) (Fin b) = Fin (a + b)"

definition dsub :: "double \<Rightarrow> double \<Rightarrow> double" where
  "dsub a b = dadd a (dneg b)"

definition dmul :: "double \<Rightarrow> double \<Rightarrow> double" where
  "dmul a b =
     (if a = NaN \<or> b = NaN then NaN
      else case (finite_value a, finite_value b) of
        (Some x, Some y) \<Rightarrow> signed (signbit a \<noteq> signbit b) (x * y)
      | (Some x, None) \<Rightarrow> if x = 0 then NaN else infinity (signbit a \<noteq> signbit b)
      | (None, Some y) \<Rightarrow> if y = 0 then NaN else infinity (signbit a \<noteq> signbit b)
      | (None, None) \<Rightarrow> infinity (signbit a \<noteq> signbit b))"

definition ddiv :: "double \<Rightarrow> double \<Rightarrow> double" where
  "ddiv a b =
     (if a = NaN \<or> b = NaN then NaN
      else case (finite_value a, finite_value b) of
        (Some x, Some y) \<Rightarrow>
          if y = 0 then (if x = 0 then NaN else infinity (signbit a \<noteq> signbit b))
          else signed (signbit a \<noteq> signbit b) (x / y)
      | (Some x, None) \<Rightarrow> signed (signbit a \<noteq> signbit b) 0
      | (None, Some y) \<Rightarrow> infinity (signbit a \<noteq> signbit b)
      | (None, None) \<Rightarrow> NaN)"

text \<open>The integer part of a real, rounded towards zero.\<close>

definition trunc_zero :: "real \<Rightarrow> int" where
  "trunc_zero r = (if r < 0 then - \<lfloor>- r\<rfloor> else \<lfloor>r\<rfloor>)"

text \<open>\<^verbatim>\<open>std::fmod\<close>: the remainder has the sign of the first argument.\<close>

definition dfmod :: "double \<Rightarrow> double \<Rightarrow> double" where
  "dfmod a b =
     (if a = NaN \<or> b = NaN then NaN
      else case (finite_value a, finite_value b) of
        (Some x, Some y) \<Rightarrow>
          if y = 0 then NaN else signed (signbit a) (x - y * of_int (trunc_zero (x / y)))
      | (Some x, None) \<Rightarrow> a
      | (None, y) \<Rightarrow> NaN)"

text \<open>\<^verbatim>\<open>number != 0.0\<close>: a NaN differs from everything, both zeros are equal to \<^verbatim>\<open>0.0\<close>.\<close>

fun nonzero :: "double \<Rightarrow> bool" where
  "nonzero (Fin r) = (r \<noteq> 0)"
| "nonzero NegZero = False"
| "nonzero d = True"

text \<open>
  The conversions \<^verbatim>\<open>(int)d\<close> and \<^verbatim>\<open>(long long)d\<close> truncate towards zero. The C++ standard
  leaves them undefined when the truncated value does not fit the target type (and for
  infinities and NaN): \<open>None\<close>.
\<close>

definition to_int :: "double \<Rightarrow> int option" where
  "to_int d =
     (case finite_value d of
        None \<Rightarrow> None
      | Some r \<Rightarrow> if - (2 ^ 31) \<le> trunc_zero r \<and> trunc_zero r < 2 ^ 31 then Some (trunc_zero r) else None)"

definition to_long_long :: "double \<Rightarrow> int option" where
  "to_long_long d =
     (case finite_value d of
        None \<Rightarrow> None
      | Some r \<Rightarrow> if - (2 ^ 63) \<le> trunc_zero r \<and> trunc_zero r < 2 ^ 63 then Some (trunc_zero r) else None)"

text \<open>\<^verbatim>\<open>(int)v.size()\<close>: a \<^verbatim>\<open>size_t\<close> reduced to 32 bits, two's complement.\<close>

definition size_to_int :: "nat \<Rightarrow> int" where
  "size_to_int n = (int n + 2 ^ 31) mod 2 ^ 32 - 2 ^ 31"

section \<open>std::stod\<close>

text \<open>
  \<^verbatim>\<open>std::stod\<close> is the C function \<^verbatim>\<open>strtod\<close>: it skips white space, reads an optional
  sign and then the longest text of one of the forms: decimal digits with an optional
  point and an optional exponent; \<^verbatim>\<open>0x\<close> and hexadecimal digits with an optional point and
  an optional binary exponent; \<^verbatim>\<open>inf\<close>, \<^verbatim>\<open>infinity\<close> or \<^verbatim>\<open>nan\<close> in any case. Whatever
  follows is ignored. \<^verbatim>\<open>stod\<close> throws \<^verbatim>\<open>std::invalid_argument\<close> when no such text is there
  and \<^verbatim>\<open>std::out_of_range\<close> when \<^verbatim>\<open>strtod\<close> reports a range error (as the GNU C library
  does: on overflow, and for a tiny value that is not a double exactly); both are \<open>None\<close>
  here, since every caller in the interpreter treats them alike.
\<close>

definition digit_value :: "char \<Rightarrow> nat" where
  "digit_value c =
     (if isdigit c then of_char c - 48
      else if c \<in> set ''abcdef'' then of_char c - 87
      else of_char c - 55)"

definition digits_value :: "nat \<Rightarrow> string \<Rightarrow> nat" where
  "digits_value base s = foldl (\<lambda>n c. base * n + digit_value c) 0 s"

definition isxdigit :: "char \<Rightarrow> bool" where
  "isxdigit c = (c \<in> set ''0123456789abcdefABCDEF'')"

text \<open>An optional sign in front of a text.\<close>

fun read_sign :: "string \<Rightarrow> bool \<times> string" where
  "read_sign [] = (False, [])"
| "read_sign (c # cs) =
     (if c = CHR ''-'' then (True, cs) else if c = CHR ''+'' then (False, cs) else (False, c # cs))"

text \<open>The exponent behind a mantissa: the marker, an optional sign and at least one digit.\<close>

definition read_exponent :: "char set \<Rightarrow> string \<Rightarrow> int" where
  "read_exponent markers s =
     (case s of
        [] \<Rightarrow> 0
      | c # cs \<Rightarrow>
          if c \<in> markers then
            (let (negative, ds) = read_sign cs; d = takeWhile isdigit ds
             in if d = [] then 0
                else if negative then - int (digits_value 10 d) else int (digits_value 10 d))
          else 0)"

definition scale :: "real \<Rightarrow> int \<Rightarrow> real" where
  "scale b e = (if 0 \<le> e then b ^ nat e else 1 / b ^ nat (- e))"

text \<open>Digits with an optional point in them; \<open>None\<close> when there is no digit at all.\<close>

definition read_mantissa :: "(char \<Rightarrow> bool) \<Rightarrow> nat \<Rightarrow> string \<Rightarrow> (real \<times> string) option" where
  "read_mantissa is_digit base s =
     (let ip = takeWhile is_digit s;
          r1 = dropWhile is_digit s;
          point = (r1 \<noteq> [] \<and> hd r1 = CHR ''.'');
          fp = (if point then takeWhile is_digit (tl r1) else []);
          r2 = (if point then dropWhile is_digit (tl r1) else r1)
      in if ip = [] \<and> fp = [] then None
         else Some (real (digits_value base (ip @ fp)) / real base ^ length fp, r2))"

definition read_decimal :: "string \<Rightarrow> real option" where
  "read_decimal s =
     (case read_mantissa isdigit 10 s of
        None \<Rightarrow> None
      | Some (m, r) \<Rightarrow> Some (m * scale 10 (read_exponent {CHR ''e'', CHR ''E''} r)))"

definition read_hexadecimal :: "string \<Rightarrow> real option" where
  "read_hexadecimal s =
     (case s of
        z # x # r \<Rightarrow>
          if z = CHR ''0'' \<and> (x = CHR ''x'' \<or> x = CHR ''X'') then
            (case read_mantissa isxdigit 16 r of
               None \<Rightarrow> None
             | Some (m, r') \<Rightarrow> Some (m * scale 2 (read_exponent {CHR ''p'', CHR ''P''} r')))
          else None
      | _ \<Rightarrow> None)"

fun starts_with_ci :: "string \<Rightarrow> string \<Rightarrow> bool" where
  "starts_with_ci [] s = True"
| "starts_with_ci (p # ps) [] = False"
| "starts_with_ci (p # ps) (c # cs) =
     ((c = p \<or> of_char c + 32 = (of_char p :: nat)) \<and> starts_with_ci ps cs)"

text \<open>The range error of \<^verbatim>\<open>strtod\<close> for a value that is not zero.\<close>

definition range_error :: "real \<Rightarrow> bool" where
  "range_error v =
     (2 ^ 1024 - 2 ^ 970 \<le> \<bar>v\<bar>
      \<or> (\<bar>v\<bar> < 1 / 2 ^ 1022 \<and> v * 2 ^ 1074 \<noteq> of_int \<lfloor>v * 2 ^ 1074\<rfloor>))"

text \<open>For evaluation: a value between 1 and \<open>2^53\<close> is in range.\<close>

lemma range_error_code [code]:
  "range_error v =
     (if 1 \<le> \<bar>v\<bar> \<and> \<bar>v\<bar> \<le> 2 ^ 53 then False
      else (2 ^ 1024 - 2 ^ 970 \<le> \<bar>v\<bar>
        \<or> (\<bar>v\<bar> < 1 / 2 ^ 1022 \<and> v * 2 ^ 1074 \<noteq> of_int \<lfloor>v * 2 ^ 1074\<rfloor>)))"
proof (cases "1 \<le> \<bar>v\<bar> \<and> \<bar>v\<bar> \<le> 2 ^ 53")
  case True
  have "(2::real) ^ 53 < 2 ^ 970"
    by (rule power_strict_increasing) simp_all
  moreover have "(2::real) ^ 1024 = 2 ^ 54 * 2 ^ 970"
    by (simp add: power_add [symmetric])
  moreover have "(2::real) ^ 54 * 2 ^ 970 - 2 ^ 970 = (2 ^ 54 - 1) * 2 ^ 970"
    by (simp add: algebra_simps)
  moreover have "(1::real) * 2 ^ 970 \<le> (2 ^ 54 - 1) * 2 ^ 970"
    by (rule mult_right_mono) simp_all
  ultimately have big: "\<bar>v\<bar> < 2 ^ 1024 - 2 ^ 970"
    using True by linarith
  have "1 / (2::real) ^ 1022 \<le> 1"
    by simp
  then have small: "\<not> \<bar>v\<bar> < 1 / 2 ^ 1022"
    using True by linarith
  show ?thesis
    using True big small by (simp add: range_error_def)
next
  case False
  then show ?thesis
    by (simp only: range_error_def if_False)
qed

definition stod :: "string \<Rightarrow> double option" where
  "stod str =
     (let (negative, s) = read_sign (dropWhile isspace str) in
      if starts_with_ci ''inf'' s then Some (infinity negative)
      else if starts_with_ci ''nan'' s then Some NaN
      else
        (case (case read_hexadecimal s of Some v \<Rightarrow> Some v | None \<Rightarrow> read_decimal s) of
           None \<Rightarrow> None
         | Some v \<Rightarrow>
             if v = 0 then Some (signed negative 0)
             else if range_error v then None
             else Some (Fin (if negative then - v else v))))"





section \<open>Values (executor.h)\<close>

text \<open>
  \<^verbatim>\<open>Value\<close> is a tagged union. A value of type \<^verbatim>\<open>FILE_OBJECT\<close> always holds a
  \<^verbatim>\<open>FileObject\<close> (the only constructor of that type takes one, and copies create one), so
  the four fields of the handle are part of the variant. Copying a value copies all of
  it, lists element by element: values are not shared.
\<close>

datatype Value =
    VNumber double
  | VString string
  | VBoolean bool
  | VNone
  | VFile string string bool bool
  | VList "Value list"

text \<open>
  The constructor call \<^verbatim>\<open>Value("...")\<close> on a string literal: the argument is a
  \<^verbatim>\<open>const char*\<close>, and overload resolution prefers its standard conversion to \<^verbatim>\<open>bool\<close> to
  the user-defined conversion to \<^verbatim>\<open>std::string\<close>. The pointer is not null, so the value
  is the Boolean true.
\<close>

definition Value_of_literal :: "string \<Rightarrow> Value" where
  "Value_of_literal text = VBoolean True"

text \<open>
  \<^verbatim>\<open>Value::toString\<close>. A number that equals its conversion to \<^verbatim>\<open>long long\<close> is written as
  that integer; any other number is written by \<^verbatim>\<open>operator<<\<close> for \<^verbatim>\<open>double\<close>, whose
  rendering is the parameter \<open>fmt\<close> of the model (where the conversion is undefined, too).
\<close>

definition join :: "string \<Rightarrow> string list \<Rightarrow> string" where
  "join sep xs = (case xs of [] \<Rightarrow> [] | y # ys \<Rightarrow> y @ concat (map (\<lambda>x. sep @ x) ys))"

definition number_toString :: "(double \<Rightarrow> string) \<Rightarrow> double \<Rightarrow> string" where
  "number_toString fmt d =
     (case to_long_long d of
        Some i \<Rightarrow> if finite_value d = Some (of_int i) then to_string i else fmt d
      | None \<Rightarrow> fmt d)"

fun toString :: "(double \<Rightarrow> string) \<Rightarrow> Value \<Rightarrow> string" where
  "toString fmt (VNumber d) = number_toString fmt d"
| "toString fmt (VString s) = s"
| "toString fmt (VBoolean b) = (if b then ''True'' else ''False'')"
| "toString fmt (VList xs) = ''['' @ join '', '' (map (toString fmt) xs) @ '']''"
| "toString fmt (VFile filename mode is_binary is_open) =
     ''<file ''  @ [squote] @ filename @ [squote] @ '' mode '' @ [squote] @ mode @ [squote] @ ''>''"
| "toString fmt VNone = ''None''"

fun toNumber :: "Value \<Rightarrow> double" where
  "toNumber (VNumber d) = d"
| "toNumber (VString s) = (case stod s of Some d \<Rightarrow> d | None \<Rightarrow> Fin 0)"
| "toNumber (VBoolean b) = (if b then Fin 1 else Fin 0)"
| "toNumber (VList xs) = Fin (real (length xs))"
| "toNumber v = Fin 0"

fun toBoolean :: "Value \<Rightarrow> bool" where
  "toBoolean (VNumber d) = nonzero d"
| "toBoolean (VString s) = (s \<noteq> [])"
| "toBoolean (VBoolean b) = b"
| "toBoolean (VList xs) = (xs \<noteq> [])"
| "toBoolean (VFile filename mode is_binary is_open) = is_open"
| "toBoolean VNone = False"




section \<open>The expression evaluator of template strings (executor.cpp)\<close>

definition strip_spaces :: "string \<Rightarrow> string" where
  "strip_spaces s = filter (\<lambda>c. \<not> isspace c) s"

text \<open>
  The two loops of \<^verbatim>\<open>parseAndEvaluateSimpleExpression\<close> look, from the right end of the
  text, for an operator character that has text on both sides, and return at the first
  one: what the \<^verbatim>\<open>try\<close> block does there cannot throw. \<open>find_operator\<close> is the position
  where such a loop returns.
\<close>

definition find_operator :: "char set \<Rightarrow> string \<Rightarrow> nat option" where
  "find_operator ops expr =
     (case filter (\<lambda>i. expr ! i \<in> ops \<and> take i expr \<noteq> [] \<and> drop (i + 1) expr \<noteq> [])
             (rev [0..<length expr]) of
        [] \<Rightarrow> None
      | i # is \<Rightarrow> Some i)"

lemma find_operator_Some:
  assumes "find_operator ops expr = Some i"
  shows "i < length expr"
proof -
  obtain "is" where "filter (\<lambda>i. expr ! i \<in> ops \<and> take i expr \<noteq> [] \<and> drop (i + 1) expr \<noteq> [])
             (rev [0..<length expr]) = i # is"
    using assms by (auto simp: find_operator_def split: list.splits)
  then have "i \<in> set (filter (\<lambda>i. expr ! i \<in> ops \<and> take i expr \<noteq> [] \<and> drop (i + 1) expr \<noteq> [])
             (rev [0..<length expr]))"
    by simp
  then show ?thesis by simp
qed

lemma length_strip_spaces: "length (strip_spaces s) \<le> length s"
  by (simp add: strip_spaces_def)

lemma operands_shorter:
  assumes "find_operator ops (strip_spaces s) = Some i"
  shows "min (length (strip_spaces s)) i < length s \<and> length (strip_spaces s) - Suc i < length s"
  using find_operator_Some [OF assms] length_strip_spaces [of s] by simp

definition is_string :: "Value \<Rightarrow> bool" where
  "is_string v = (case v of VString s \<Rightarrow> True | _ \<Rightarrow> False)"

definition is_list :: "Value \<Rightarrow> bool" where
  "is_list v = (case v of VList xs \<Rightarrow> True | _ \<Rightarrow> False)"

function parseAndEvaluateSimpleExpression ::
  "(double \<Rightarrow> string) \<Rightarrow> (string \<rightharpoonup> Value) \<Rightarrow> string \<Rightarrow> Value" where
  "parseAndEvaluateSimpleExpression fmt variables expr_str =
     (let expr = strip_spaces expr_str in
      if expr = [] then Value_of_literal ''None''
      else if list_all (\<lambda>c. isdigit c \<or> c = CHR ''.'') expr then
        (case stod expr of Some d \<Rightarrow> VNumber d | None \<Rightarrow> VString expr)
      else if list_all (\<lambda>c. isalnum c \<or> c = CHR ''_'') expr then
        (case variables expr of
           Some val \<Rightarrow>
             (case val of
                VNumber d \<Rightarrow> VNumber d
              | VString s \<Rightarrow> VString s
              | VBoolean b \<Rightarrow> VBoolean b
              | VList xs \<Rightarrow> VList xs
              | VFile filename mode is_binary is_open \<Rightarrow> VNone
              | VNone \<Rightarrow> VNone)
         | None \<Rightarrow> VString (''{'' @ expr @ ''}''))
      else
        (case find_operator {CHR ''+'', CHR ''-''} expr of
           Some i \<Rightarrow>
             (let left_val = parseAndEvaluateSimpleExpression fmt variables (take i expr);
                  right_val = parseAndEvaluateSimpleExpression fmt variables (drop (i + 1) expr)
              in if expr ! i = CHR ''+'' then
                   (if is_string left_val \<or> is_string right_val
                    then VString (toString fmt left_val @ toString fmt right_val)
                    else VNumber (dadd (toNumber left_val) (toNumber right_val)))
                 else VNumber (dsub (toNumber left_val) (toNumber right_val)))
         | None \<Rightarrow>
             (case find_operator {CHR ''*'', CHR ''/'', CHR ''%''} expr of
                Some i \<Rightarrow>
                  (let left_val = parseAndEvaluateSimpleExpression fmt variables (take i expr);
                       right_val = parseAndEvaluateSimpleExpression fmt variables (drop (i + 1) expr)
                   in if expr ! i = CHR ''*'' then
                        VNumber (dmul (toNumber left_val) (toNumber right_val))
                      else if expr ! i = CHR ''/'' then
                        VNumber (ddiv (toNumber left_val) (toNumber right_val))
                      else VNumber (dfmod (toNumber left_val) (toNumber right_val)))
              | None \<Rightarrow> VString (''{'' @ expr_str @ ''}''))))"
  by pat_completeness auto
termination
  by (relation "measure (\<lambda>(fmt, variables, expr_str). length expr_str)")
     (auto dest!: operands_shorter)

declare parseAndEvaluateSimpleExpression.simps [simp del]

subsection \<open>evaluateFString\<close>

text \<open>The character an escape sequence stands for; any other character stands for itself.\<close>

definition unescape :: "char \<Rightarrow> char" where
  "unescape c =
     (if c = CHR ''n'' then CHR 0x0A
      else if c = CHR ''r'' then CHR 0x0D
      else if c = CHR ''t'' then CHR 0x09
      else if c = CHR ''b'' then CHR 0x08
      else if c = CHR ''f'' then CHR 0x0C
      else if c = CHR ''v'' then CHR 0x0B
      else c)"

text \<open>
  The search for the matching brace, from \<^verbatim>\<open>expr_start\<close> on with \<^verbatim>\<open>brace_count\<close> open
  braces: the text of the region and the text behind its closing brace, or \<open>None\<close> when
  the template ends first.
\<close>

fun matchBrace :: "nat \<Rightarrow> string \<Rightarrow> (string \<times> string) option" where
  "matchBrace brace_count [] = None"
| "matchBrace brace_count (c # cs) =
     (let n = (if c = CHR ''{'' then brace_count + 1
               else if c = CHR ''}'' then brace_count - 1
               else brace_count)
      in if 0 < n
         then (case matchBrace n cs of
                 None \<Rightarrow> None
               | Some (region, rest) \<Rightarrow> Some (c # region, rest))
         else Some ([], cs))"

lemma matchBrace_length:
  "matchBrace n cs = Some (region, rest) \<Longrightarrow> length rest < length cs"
proof (induct cs arbitrary: n region)
  case Nil
  then show ?case by simp
next
  case (Cons c cs)
  then show ?case
    by (fastforce simp: Let_def split: if_splits option.splits)
qed

function evaluateFStringLoop ::
  "(double \<Rightarrow> string) \<Rightarrow> (string \<rightharpoonup> Value) \<Rightarrow> string \<Rightarrow> string" where
  "evaluateFStringLoop fmt variables [] = []"
| "evaluateFStringLoop fmt variables (c # cs) =
     (if c = backslash then
        (case cs of
           [] \<Rightarrow> [c]
         | d # ds \<Rightarrow> unescape d # evaluateFStringLoop fmt variables ds)
      else if c = CHR ''{'' then
        (case matchBrace 1 cs of
           Some (expr_str, rest) \<Rightarrow>
             toString fmt (parseAndEvaluateSimpleExpression fmt variables expr_str)
               @ evaluateFStringLoop fmt variables rest
         | None \<Rightarrow> c # evaluateFStringLoop fmt variables cs)
      else c # evaluateFStringLoop fmt variables cs)"
  by pat_completeness auto
termination
  by (relation "measure (\<lambda>(fmt, variables, template). length template)")
     (auto dest: matchBrace_length)

declare evaluateFStringLoop.simps [simp del]

definition evaluateFString :: "(double \<Rightarrow> string) \<Rightarrow> (string \<rightharpoonup> Value) \<Rightarrow> string \<Rightarrow> Value" where
  "evaluateFString fmt variables template_string =
     VString (evaluateFStringLoop fmt variables template_string)"

text \<open>A region without braces ends at the next closing brace; a name has no brace.\<close>

lemma matchBrace_region:
  assumes "CHR ''{'' \<notin> set raw" and "CHR ''}'' \<notin> set raw"
  shows "matchBrace (Suc 0) (raw @ CHR ''}'' # rest) = Some (raw, rest)"
  using assms by (induct raw) auto

lemma name_has_no_brace:
  assumes "list_all (\<lambda>c. isalnum c \<or> c = CHR ''_'') (strip_spaces raw)"
  shows "CHR ''{'' \<notin> set raw \<and> CHR ''}'' \<notin> set raw"
proof -
  have "isalnum c \<or> c = CHR ''_'' \<or> isspace c" if "c \<in> set raw" for c
    using assms that by (auto simp: strip_spaces_def list_all_iff)
  moreover have "\<not> (isalnum c \<or> c = CHR ''_'' \<or> isspace c)" if "c = CHR ''{'' \<or> c = CHR ''}''" for c
    using that by (auto simp: isalnum_def isalpha_def isdigit_def isspace_def)
  ultimately show ?thesis by blast
qed


section \<open>The executor (executor.cpp)\<close>

text \<open>
  An \<^verbatim>\<open>Executor\<close> holds the variables and the interactive flag. The model adds what the
  executor reads and writes outside itself: the text written to \<^verbatim>\<open>std::cout\<close>, the lines
  still to come on \<^verbatim>\<open>std::cin\<close>, the contents of the files, and which paths can be opened
  for writing.
\<close>

record Executor =
  variables :: "string \<rightharpoonup> Value"
  interactiveMode :: bool
  std_out :: string
  std_in :: "string list"
  fs_files :: "string \<rightharpoonup> string"
  fs_writable :: "string \<Rightarrow> bool"

text \<open>
  A fault ends an evaluation. \<open>Raised\<close> is a C++ exception derived from
  \<^verbatim>\<open>std::exception\<close>, with its message. \<open>OutsideModel\<close> marks a run that leaves what the model
  describes: a conversion the C++ standard leaves undefined, a callee that is not an
  identifier (a null pointer is dereferenced), or a file method called through a reference
  to a variable that the evaluation of the arguments has rebound or removed.
  \<open>DepthExceeded\<close> says that \<^verbatim>\<open>eval\<close> and \<^verbatim>\<open>exec\<close> were nested deeper than the bound
  given to the model; the bound stands for the call stack, which the C++ code does not
  check. The last two are not exceptions: no handler catches them.
\<close>

datatype fault = Raised string | OutsideModel | DepthExceeded

type_synonym 'a outcome = "(fault + 'a) \<times> Executor"

definition fastPutString :: "string \<Rightarrow> Executor \<Rightarrow> Executor" where
  "fastPutString str st = st\<lparr>std_out := std_out st @ str\<rparr>"

text \<open>\<^verbatim>\<open>std::getline\<close> leaves the empty string when the input is at its end.\<close>

definition fastGetString :: "Executor \<Rightarrow> string \<times> Executor" where
  "fastGetString st =
     (case std_in st of [] \<Rightarrow> ([], st) | l # ls \<Rightarrow> (l, st\<lparr>std_in := ls\<rparr>))"

definition evaluateLiteral :: "string \<Rightarrow> TokenType \<Rightarrow> fault + Value" where
  "evaluateLiteral v t =
     (if t = NUMBER then (case stod v of Some d \<Rightarrow> Inr (VNumber d) | None \<Rightarrow> Inl (Raised ''stod''))
      else if t = STRING then Inr (VString v)
      else if t = TRUE then Inr (VBoolean True)
      else if t = FALSE then Inr (VBoolean False)
      else Inr (VString v))"

definition evaluateIdentifier :: "Executor \<Rightarrow> string \<Rightarrow> Value" where
  "evaluateIdentifier st name = (case variables st name of Some v \<Rightarrow> v | None \<Rightarrow> VNone)"

fun list_value :: "Value \<Rightarrow> Value list" where
  "list_value (VList xs) = xs"
| "list_value v = []"

text \<open>The switch of \<^verbatim>\<open>evaluateBinary\<close>, on the values of the two operands.\<close>

definition binaryOperation :: "(double \<Rightarrow> string) \<Rightarrow> TokenType \<Rightarrow> Value \<Rightarrow> Value \<Rightarrow> Value" where
  "binaryOperation fmt op left right =
     (if op = PLUS then
        (if is_string left \<or> is_string right
           then VString (toString fmt left @ toString fmt right)
         else if is_list left \<and> is_list right
           then VList (list_value left @ list_value right)
         else VNumber (dadd (toNumber left) (toNumber right)))
      else if op = MINUS then VNumber (dsub (toNumber left) (toNumber right))
      else if op = MULTIPLY then VNumber (dmul (toNumber left) (toNumber right))
      else if op = DIVIDE then VNumber (ddiv (toNumber left) (toNumber right))
      else if op = MODULO then VNumber (dfmod (toNumber left) (toNumber right))
      else VNone)"

text \<open>The body of \<^verbatim>\<open>evaluateIndex\<close> behind the evaluation of the two operands.\<close>

definition indexValue :: "Value \<Rightarrow> Value \<Rightarrow> fault + Value" where
  "indexValue array idx =
     (case array of
        VList xs \<Rightarrow>
          (case to_int (toNumber idx) of
             None \<Rightarrow> Inl OutsideModel
           | Some index_val \<Rightarrow>
               if 0 \<le> index_val \<and> index_val < size_to_int (length xs)
               then Inr (xs ! nat index_val)
               else Inl (Raised ''Index out of range''))
      | _ \<Rightarrow> Inl (Raised ''Indexing not supported for this type''))"

definition evaluateFileRead :: "string \<Rightarrow> bool \<Rightarrow> Executor \<Rightarrow> fault + Value" where
  "evaluateFileRead filename is_binary st =
     (case fs_files st filename of
        None \<Rightarrow> Inl (Raised (''File read error: Could not open file for reading: '' @ filename))
      | Some content \<Rightarrow> Inr (VString content))"

definition evaluateFileWrite ::
  "string \<Rightarrow> string \<Rightarrow> bool \<Rightarrow> string \<Rightarrow> Executor \<Rightarrow> Value outcome" where
  "evaluateFileWrite filename data is_binary mode st =
     (if fs_writable st filename then
        (Inr (VNumber (Fin (real (length data)))),
         st\<lparr>fs_files := (fs_files st)(filename \<mapsto>
              (if CHR ''a'' \<in> set mode
               then (case fs_files st filename of None \<Rightarrow> [] | Some old \<Rightarrow> old) @ data
               else data))\<rparr>)
      else (Inl (Raised (''File write error: Could not open file for writing: '' @ filename)), st))"

text \<open>
  Modelled from the spec: \<^verbatim>\<open>Parser::parseExpressionPublic\<close>, which the header of this
  version declares and \<^verbatim>\<open>evaluateEval\<close> calls; it parses the tokens "as a single
  expression", that is, it is \<^verbatim>\<open>parseExpression\<close> on the fresh parser.
\<close>

definition parseExpressionPublic :: "Token list \<Rightarrow> expr parse_result" where
  "parseExpressionPublic tokens = parseExpression tokens"

text \<open>The handlers: what a \<^verbatim>\<open>catch (const std::exception& e)\<close> rethrows.\<close>

fun rethrow :: "string \<Rightarrow> fault \<Rightarrow> fault" where
  "rethrow tag (Raised message) = Raised (tag @ message)"
| "rethrow tag f = f"

text \<open>\<^verbatim>\<open>(double)(long long)d\<close> in \<^verbatim>\<open>evaluateInt\<close>.\<close>

definition truncated :: "double \<Rightarrow> fault + Value" where
  "truncated d =
     (case to_long_long d of
        None \<Rightarrow> Inl OutsideModel
      | Some i \<Rightarrow> Inr (VNumber (Fin (of_int i))))"

text \<open>The result of \<^verbatim>\<open>len\<close> on the value of its argument.\<close>

definition lenValue :: "(double \<Rightarrow> string) \<Rightarrow> Value \<Rightarrow> Value" where
  "lenValue fmt arg =
     (if is_list arg then VNumber (Fin (real (length (list_value arg))))
      else VNumber (Fin (real (length (toString fmt arg)))))"

definition reprValue :: "(double \<Rightarrow> string) \<Rightarrow> Value \<Rightarrow> Value" where
  "reprValue fmt arg =
     (if is_string arg then VString ([squote] @ toString fmt arg @ [squote])
      else VString (toString fmt arg))"

text \<open>\<^verbatim>\<open>exec\<close> ends its code with a line break.\<close>

definition withFinalNewline :: "string \<Rightarrow> string" where
  "withFinalNewline code_str =
     (if code_str \<noteq> [] \<and> last code_str \<noteq> newline then code_str @ [newline] else code_str)"

text \<open>
  The functions that walk the tree. \<open>depth\<close> bounds the nesting of \<^verbatim>\<open>eval\<close> and \<^verbatim>\<open>exec\<close>:
  each of them evaluates a tree that it has parsed from a string with one level less.
  \<open>evaluateElements\<close> is the loop that evaluates a list of expressions from left to right
  (\<^verbatim>\<open>evaluateList\<close>, the arguments of \<^verbatim>\<open>print\<close>); \<open>executeStatements\<close> is the loop over a
  statement sequence (\<^verbatim>\<open>execute\<close>, the body of a with-statement, the code of \<^verbatim>\<open>exec\<close>).
\<close>

function
  evaluateExpression :: "(double \<Rightarrow> string) \<Rightarrow> nat \<Rightarrow> Executor \<Rightarrow> expr \<Rightarrow> Value outcome" and
  evaluateElements :: "(double \<Rightarrow> string) \<Rightarrow> nat \<Rightarrow> Executor \<Rightarrow> expr list \<Rightarrow> (Value list) outcome" and
  evaluateCall :: "(double \<Rightarrow> string) \<Rightarrow> nat \<Rightarrow> Executor \<Rightarrow> expr \<Rightarrow> expr list \<Rightarrow> Value outcome" and
  executeStatement :: "(double \<Rightarrow> string) \<Rightarrow> nat \<Rightarrow> Executor \<Rightarrow> stmt \<Rightarrow> unit outcome" and
  executeStatements :: "(double \<Rightarrow> string) \<Rightarrow> nat \<Rightarrow> Executor \<Rightarrow> stmt list \<Rightarrow> unit outcome"
where
  "evaluateExpression fmt depth st (LiteralExpr v t) = (evaluateLiteral v t, st)"
| "evaluateExpression fmt depth st (ListExpr elements) =
     (case evaluateElements fmt depth st elements of
        (Inl f, st1) \<Rightarrow> (Inl f, st1)
      | (Inr vs, st1) \<Rightarrow> (Inr (VList vs), st1))"
| "evaluateExpression fmt depth st (IndexExpr array index) =
     (case evaluateExpression fmt depth st array of
        (Inl f, st1) \<Rightarrow> (Inl f, st1)
      | (Inr a, st1) \<Rightarrow>
          (case evaluateExpression fmt depth st1 index of
             (Inl f, st2) \<Rightarrow> (Inl f, st2)
           | (Inr idx, st2) \<Rightarrow> (indexValue a idx, st2)))"
| "evaluateExpression fmt depth st (FStringExpr template_string) =
     (Inr (evaluateFString fmt (variables st) template_string), st)"
| "evaluateExpression fmt depth st (IdentifierExpr name) = (Inr (evaluateIdentifier st name), st)"
| "evaluateExpression fmt depth st (BinaryExpr l op r) =
     (case evaluateExpression fmt depth st l of
        (Inl f, st1) \<Rightarrow> (Inl f, st1)
      | (Inr left, st1) \<Rightarrow>
          (case evaluateExpression fmt depth st1 r of
             (Inl f, st2) \<Rightarrow> (Inl f, st2)
           | (Inr right, st2) \<Rightarrow> (Inr (binaryOperation fmt op left right), st2)))"
| "evaluateExpression fmt depth st (CallExpr callee arguments) =
     evaluateCall fmt depth st callee arguments"
| "evaluateElements fmt depth st [] = (Inr [], st)"
| "evaluateElements fmt depth st (e # es) =
     (case evaluateExpression fmt depth st e of
        (Inl f, st1) \<Rightarrow> (Inl f, st1)
      | (Inr v, st1) \<Rightarrow>
          (case evaluateElements fmt depth st1 es of
             (Inl f, st2) \<Rightarrow> (Inl f, st2)
           | (Inr vs, st2) \<Rightarrow> (Inr (v # vs), st2)))"
| "evaluateCall fmt depth st callee arguments =
     (case callee of
        IdentifierExpr funcName \<Rightarrow>
          if funcName = ''str'' then
            (case arguments of
               [] \<Rightarrow> (Inr (Value_of_literal []), st)
             | a # as \<Rightarrow>
                 (case evaluateExpression fmt depth st a of
                    (Inl f, st1) \<Rightarrow> (Inl f, st1)
                  | (Inr arg, st1) \<Rightarrow> (Inr (VString (toString fmt arg)), st1)))
          else if funcName = ''repr'' then
            (case arguments of
               [] \<Rightarrow> (Inr (Value_of_literal [squote, squote]), st)
             | a # as \<Rightarrow>
                 (case evaluateExpression fmt depth st a of
                    (Inl f, st1) \<Rightarrow> (Inl f, st1)
                  | (Inr arg, st1) \<Rightarrow> (Inr (reprValue fmt arg), st1)))
          else if funcName = ''int'' then
            (case arguments of
               [] \<Rightarrow> (Inr (VNumber (Fin 0)), st)
             | a # as \<Rightarrow>
                 (case evaluateExpression fmt depth st a of
                    (Inl f, st1) \<Rightarrow> (Inl f, st1)
                  | (Inr arg, st1) \<Rightarrow> (truncated (toNumber arg), st1)))
          else if funcName = ''float'' then
            (case arguments of
               [] \<Rightarrow> (Inr (VNumber (Fin 0)), st)
             | a # as \<Rightarrow>
                 (case evaluateExpression fmt depth st a of
                    (Inl f, st1) \<Rightarrow> (Inl f, st1)
                  | (Inr arg, st1) \<Rightarrow> (Inr (VNumber (toNumber arg)), st1)))
          else if funcName = ''bool'' then
            (case arguments of
               [] \<Rightarrow> (Inr (VBoolean False), st)
             | a # as \<Rightarrow>
                 (case evaluateExpression fmt depth st a of
                    (Inl f, st1) \<Rightarrow> (Inl f, st1)
                  | (Inr arg, st1) \<Rightarrow> (Inr (VBoolean (toBoolean arg)), st1)))
          else if funcName = ''len'' then
            (case arguments of
               [] \<Rightarrow> (Inr (VNumber (Fin 0)), st)
             | a # as \<Rightarrow>
                 (case evaluateExpression fmt depth st a of
                    (Inl f, st1) \<Rightarrow> (Inl f, st1)
                  | (Inr arg, st1) \<Rightarrow> (Inr (lenValue fmt arg), st1)))
          else if funcName = ''input'' then
            (case arguments of
               [] \<Rightarrow> (case fastGetString st of (input, st1) \<Rightarrow> (Inr (VString input), st1))
             | a # as \<Rightarrow>
                 (case evaluateExpression fmt depth st a of
                    (Inl f, st1) \<Rightarrow> (Inl f, st1)
                  | (Inr prompt, st1) \<Rightarrow>
                      (case fastGetString (fastPutString (toString fmt prompt) st1) of
                         (input, st2) \<Rightarrow> (Inr (VString input), st2))))
          else if funcName = ''print'' then
            (case evaluateElements fmt depth st arguments of
               (Inl f, st1) \<Rightarrow> (Inl f, st1)
             | (Inr vs, st1) \<Rightarrow>
                 (Inr VNone,
                  fastPutString (join '' '' (map (toString fmt) vs) @ [newline]) st1))
          else if funcName = ''open'' then
            (case arguments of
               [] \<Rightarrow> (Inl (Raised (''open() missing required argument 'file'' @ [squote])), st)
             | a # as \<Rightarrow>
                 (case evaluateExpression fmt depth st a of
                    (Inl f, st1) \<Rightarrow> (Inl f, st1)
                  | (Inr filename_value, st1) \<Rightarrow>
                      (case as of
                         [] \<Rightarrow>
                           (Inr (VFile (toString fmt filename_value) ''r'' False True), st1)
                       | b # bs \<Rightarrow>
                           (case evaluateExpression fmt depth st1 b of
                              (Inl f, st2) \<Rightarrow> (Inl f, st2)
                            | (Inr mode_value, st2) \<Rightarrow>
                                (Inr (VFile (toString fmt filename_value)
                                        (toString fmt mode_value)
                                        (CHR ''b'' \<in> set (toString fmt mode_value)) True),
                                 st2)))))
          else if funcName = ''eval'' then
            (case arguments of
               [] \<Rightarrow> (Inl (Raised ''eval() missing required argument''), st)
             | a # as \<Rightarrow>
                 (case evaluateExpression fmt depth st a of
                    (Inl f, st1) \<Rightarrow> (Inl f, st1)
                  | (Inr expr_value, st1) \<Rightarrow>
                      (case (if list_all (\<lambda>c. isdigit c \<or> c = CHR ''.'') (toString fmt expr_value)
                             then stod (toString fmt expr_value) else None) of
                         Some d \<Rightarrow> (Inr (VNumber d), st1)
                       | None \<Rightarrow>
                           (case parseExpressionPublic (tokenize (toString fmt expr_value)) of
                              Inl e \<Rightarrow>
                                (Inr (parseAndEvaluateSimpleExpression fmt (variables st1)
                                        (toString fmt expr_value)), st1)
                            | Inr (expr_node, ts) \<Rightarrow>
                                (case depth of
                                   0 \<Rightarrow> (Inl DepthExceeded, st1)
                                 | Suc d \<Rightarrow>
                                     (case evaluateExpression fmt d st1 expr_node of
                                        (Inl (Raised message), st2) \<Rightarrow>
                                          (Inr (parseAndEvaluateSimpleExpression fmt (variables st2)
                                                  (toString fmt expr_value)), st2)
                                      | (Inl f, st2) \<Rightarrow> (Inl f, st2)
                                      | (Inr v, st2) \<Rightarrow> (Inr v, st2)))))))
          else if funcName = ''exec'' then
            (case arguments of
               [] \<Rightarrow> (Inl (Raised ''exec() missing required argument''), st)
             | a # as \<Rightarrow>
                 (case evaluateExpression fmt depth st a of
                    (Inl f, st1) \<Rightarrow> (Inl f, st1)
                  | (Inr code_value, st1) \<Rightarrow>
                      (case depth of
                         0 \<Rightarrow> (Inl DepthExceeded, st1)
                       | Suc d \<Rightarrow>
                           (case executeStatements fmt d st1
                                   (parse (tokenize (withFinalNewline (toString fmt code_value)))) of
                              (Inl f, st2) \<Rightarrow> (Inl (rethrow ''exec error: '' f), st2)
                            | (Inr u, st2) \<Rightarrow> (Inr VNone, st2)))))
          else
            (case variables st funcName of
               Some (VFile filename mode is_binary is_open) \<Rightarrow>
                 (case arguments of
                    [] \<Rightarrow> (Inr VNone, st)
                  | a # as \<Rightarrow>
                      (case evaluateExpression fmt depth st a of
                         (Inl f, st1) \<Rightarrow> (Inl f, st1)
                       | (Inr methodValue, st1) \<Rightarrow>
                           if toString fmt methodValue = ''read'' then
                             (case variables st1 funcName of
                                Some (VFile fn md bin opn) \<Rightarrow> (evaluateFileRead fn bin st1, st1)
                              | _ \<Rightarrow> (Inl OutsideModel, st1))
                           else if toString fmt methodValue = ''write'' \<and> as \<noteq> [] then
                             (case evaluateExpression fmt depth st1 (hd as) of
                                (Inl f, st2) \<Rightarrow> (Inl f, st2)
                              | (Inr dataValue, st2) \<Rightarrow>
                                  (case variables st2 funcName of
                                     Some (VFile fn md bin opn) \<Rightarrow>
                                       evaluateFileWrite fn (toString fmt dataValue) bin md st2
                                   | _ \<Rightarrow> (Inl OutsideModel, st2)))
                           else if toString fmt methodValue = ''close'' then
                             (case variables st1 funcName of
                                Some (VFile fn md bin opn) \<Rightarrow>
                                  (Inr VNone,
                                   st1\<lparr>variables := (variables st1)(funcName \<mapsto> VFile fn md bin False)\<rparr>)
                              | _ \<Rightarrow> (Inl OutsideModel, st1))
                           else (Inr VNone, st1)))
             | _ \<Rightarrow> (Inl (Raised (''Function '' @ funcName @ '' is not defined'')), st))
      | _ \<Rightarrow> (Inl OutsideModel, st))"
| "executeStatement fmt depth st (PrintStmt expressions) =
     (case evaluateElements fmt depth st expressions of
        (Inl f, st1) \<Rightarrow> (Inl f, st1)
      | (Inr vs, st1) \<Rightarrow>
          (Inr (), fastPutString (concat (map (toString fmt) vs) @ [newline]) st1))"
| "executeStatement fmt depth st (AssignStmt variable e) =
     (case evaluateExpression fmt depth st e of
        (Inl f, st1) \<Rightarrow> (Inl f, st1)
      | (Inr v, st1) \<Rightarrow> (Inr (), st1\<lparr>variables := (variables st1)(variable \<mapsto> v)\<rparr>))"
| "executeStatement fmt depth st (WithStmt context_expr optional_vars body) =
     (case evaluateExpression fmt depth st context_expr of
        (Inl f, st1) \<Rightarrow> (Inl (rethrow ''with statement error: '' f), st1)
      | (Inr context_value, st1) \<Rightarrow>
          (case executeStatements fmt depth
                  (if optional_vars \<noteq> []
                   then st1\<lparr>variables := (variables st1)(optional_vars \<mapsto> context_value)\<rparr>
                   else st1) body of
             (Inl f, st2) \<Rightarrow> (Inl (rethrow ''with statement error: '' f), st2)
           | (Inr u, st2) \<Rightarrow>
               (Inr (),
                if optional_vars \<noteq> []
                then st2\<lparr>variables := (variables st2)(optional_vars := None)\<rparr>
                else st2)))"
| "executeStatement fmt depth st (ExprStmt expression) =
     (case evaluateExpression fmt depth st expression of
        (Inl f, st1) \<Rightarrow> (Inl f, st1)
      | (Inr result, st1) \<Rightarrow>
          (Inr (),
           if interactiveMode st1 \<and> result \<noteq> VNone
           then fastPutString (toString fmt result @ [newline]) st1
           else st1))"
| "executeStatements fmt depth st [] = (Inr (), st)"
| "executeStatements fmt depth st (s # ss) =
     (case executeStatement fmt depth st s of
        (Inl f, st1) \<Rightarrow> (Inl f, st1)
      | (Inr u, st1) \<Rightarrow> executeStatements fmt depth st1 ss)"
  by pat_completeness auto

text \<open>The measure: the depth left; statements before expressions; the size of the tree;
  \<^verbatim>\<open>evaluateCall\<close> before the loop over its arguments.\<close>

definition executor_measure ::
  "((double \<Rightarrow> string) \<times> nat \<times> Executor \<times> expr
     + (double \<Rightarrow> string) \<times> nat \<times> Executor \<times> expr list)
   + ((double \<Rightarrow> string) \<times> nat \<times> Executor \<times> expr \<times> expr list)
   + ((double \<Rightarrow> string) \<times> nat \<times> Executor \<times> stmt)
   + ((double \<Rightarrow> string) \<times> nat \<times> Executor \<times> stmt list)
   \<Rightarrow> nat \<times> nat \<times> nat \<times> nat" where
  "executor_measure =
     case_sum
       (case_sum (\<lambda>(fmt, depth, st, e). (depth, 0, size e, 0))
                 (\<lambda>(fmt, depth, st, es). (depth, 0, size_list size es, 0)))
       (case_sum (\<lambda>(fmt, depth, st, callee, arguments).
                    (depth, 0, size callee + size_list size arguments, 1))
          (case_sum (\<lambda>(fmt, depth, st, s). (depth, 1, size s, 0))
                    (\<lambda>(fmt, depth, st, ss). (depth, 1, size_list size ss, 0))))"

lemma size_hd: "as \<noteq> [] \<Longrightarrow> size (hd as) < Suc (size_list size as)"
  by (cases as) auto

termination evaluateExpression
  apply (relation "inv_image (less_than <*lex*> less_than <*lex*> less_than <*lex*> less_than) executor_measure")
  apply (intro wf_inv_image wf_lex_prod wf_less_than)
  apply (auto simp: executor_measure_def dest: size_hd)
  done


declare evaluateCall.simps [simp del]

definition execute :: "(double \<Rightarrow> string) \<Rightarrow> nat \<Rightarrow> Executor \<Rightarrow> stmt list \<Rightarrow> unit outcome" where
  "execute fmt depth st statements = executeStatements fmt depth st statements"


section \<open>Examples\<close>

text \<open>Examples are evaluated with a formatter that writes nothing and from an empty executor.\<close>

definition fmt0 :: "double \<Rightarrow> string" where
  "fmt0 d = []"

definition writable0 :: "string \<Rightarrow> bool" where
  "writable0 path = True"

definition executor0 :: Executor where
  "executor0 = \<lparr>variables = Map.empty, interactiveMode = False, std_out = [], std_in = [],
                 fs_files = Map.empty, fs_writable = writable0\<rparr>"



text \<open>The names that \<^verbatim>\<open>evaluateCall\<close> compares the callee with before it looks at the
  variables.\<close>

definition builtin_names :: "string list" where
  "builtin_names = [''str'', ''repr'', ''int'', ''float'', ''bool'', ''len'', ''input'',
                    ''print'', ''open'', ''eval'', ''exec'']"

definition file0 :: Value where
  "file0 = VFile ''f.txt'' ''w'' False True"


text \<open>When the body returns, the name is unbound.\<close>

lemma with_unbinds_on_return:
  assumes "evaluateExpression fmt depth st context_expr = (Inr v, st1)"
    and "executeStatements fmt depth (st1\<lparr>variables := (variables st1)(name \<mapsto> v)\<rparr>) body = (Inr u, st2)"
    and "name \<noteq> []"
  shows "\<exists>st3. executeStatement fmt depth st (WithStmt context_expr name body) = (Inr (), st3)
             \<and> variables st3 name = None"
  using assms by simp

text \<open>The text \<^verbatim>\<open>2 + 3 * 4\<close>, and the call of \<^verbatim>\<open>eval\<close> on it as a program.\<close>

lemma stod_2_3_4:
  "stod ''2'' = Some (Fin 2)" "stod ''3'' = Some (Fin 3)" "stod ''4'' = Some (Fin 4)"
  by code_simp+

lemma parse_2_3_4:
  "parseExpressionPublic (tokenize ''2 + 3 * 4'') =
     Inr (BinaryExpr (LiteralExpr ''2'' NUMBER) PLUS
            (BinaryExpr (LiteralExpr ''3'' NUMBER) MULTIPLY (LiteralExpr ''4'' NUMBER)),
          [mkToken EOF_TOKEN [] 1 9])"
  by code_simp

lemma parse_eval_call:
  "parse (tokenize (''eval('' @ [dquote] @ ''2 + 3 * 4'' @ [dquote] @ '')'')) =
     [ExprStmt (CallExpr (IdentifierExpr ''eval'') [LiteralExpr ''2 + 3 * 4'' STRING])]"
  by code_simp

lemma arithmetic_2_3_4:
  "dmul (Fin 3) (Fin 4) = Fin 12" "dadd (Fin 2) (Fin 12) = Fin 14"
  by (simp_all add: dmul_def signed_def)

text \<open>The template \<^verbatim>\<open>sum={x+y}\<close> where \<^verbatim>\<open>x\<close> is 2 and \<^verbatim>\<open>y\<close> is 3.\<close>

lemma sum_x_y:
  "evaluateFString fmt [''x'' \<mapsto> VNumber (Fin 2), ''y'' \<mapsto> VNumber (Fin 3)] ''sum={x+y}''
     = VString ''sum=5''"
  by code_simp

text \<open>The index postfix is read behind an identifier only: a list literal followed by
  \<^verbatim>\<open>[1]\<close> is two statements.\<close>

lemma parse_index_texts:
  "parse (tokenize ''x[1]'') = [ExprStmt (IndexExpr (IdentifierExpr ''x'') (LiteralExpr ''1'' NUMBER))]"
  "parse (tokenize ''[10, 20, 30][1]'') =
     [ExprStmt (ListExpr [LiteralExpr ''10'' NUMBER, LiteralExpr ''20'' NUMBER,
                          LiteralExpr ''30'' NUMBER]),
      ExprStmt (ListExpr [LiteralExpr ''1'' NUMBER])]"
  by code_simp+

text \<open>The messages of the file operations are not the message for a missing function.\<close>

lemma not_undefined_function:
  "''File read error: Could not open file for reading: '' @ fn \<noteq> ''Function '' @ g @ '' is not defined''"
  "''File write error: Could not open file for writing: '' @ fn \<noteq> ''Function '' @ g @ '' is not defined''"
  by simp_all


section \<open>The claims\<close>

text \<open>
  C2. The claim: an identifier-shaped run is a keyword token exactly for the thirteen
  keywords print, input, if, else, for, while, def, return, True, False, None, with, as;
  in particular \<^verbatim>\<open>with\<close> and \<^verbatim>\<open>as\<close> give the token kinds WITH and AS.
  \<^verbatim>\<open>Lexer::getKeywordType\<close> tests eleven names only: the text \<^verbatim>\<open>with\<close> and the text
  \<^verbatim>\<open>as\<close> come out of the tokenizer as IDENTIFIER tokens, although \<^verbatim>\<open>TokenType\<close> lists
  WITH and AS among the keywords and \<^verbatim>\<open>Parser::parseStatement\<close> dispatches on WITH.
\<close>

theorem getKeywordType_misses_with_as:
  "getKeywordType ''with'' = IDENTIFIER \<and> getKeywordType ''as'' = IDENTIFIER
   \<and> tokenize ''with'' = [mkToken IDENTIFIER ''with'' 1 4, mkToken EOF_TOKEN [] 1 4]
   \<and> tokenize ''as'' = [mkToken IDENTIFIER ''as'' 1 2, mkToken EOF_TOKEN [] 1 2]"
  by code_simp

text \<open>
  C6. For every input text \<^verbatim>\<open>tokenize\<close> returns (the function is total: its loops were
  shown to terminate) a token sequence that is not empty and whose last token is the EOF
  token; no branch of it throws. A character without a token rule, and a \<^verbatim>\<open>!\<close> that is
  not followed by \<^verbatim>\<open>=\<close>, is skipped: tokenizing goes on behind it, one column further,
  and no token is made for it.
\<close>

theorem tokenize_total_EOF_discards:
  "tokenize source \<noteq> [] \<and> tok_type (last (tokenize source)) = EOF_TOKEN
   \<and> (\<forall>c cs l k. unrecognised c \<longrightarrow>
          tokenizeLoop (c # cs, l, k) = tokenizeLoop (cs, l, k + 1))
   \<and> (\<forall>cs l k. peekChar (CHR ''!'' # cs, l, k) \<noteq> CHR ''='' \<longrightarrow>
          tokenizeLoop (CHR ''!'' # cs, l, k) = tokenizeLoop (cs, l, k + 1))"
  using tokenizeLoop_last [of "(source, 1, 0)"] tokenizeLoop_unrecognised tokenizeLoop_bang
  by (simp add: tokenize_def)

theorem tokenize_total_EOF_discards_witness:
  "unrecognised (CHR ''@'') \<and> peekChar (''!b'', 1, 1) \<noteq> CHR ''=''
   \<and> tokenize ''@!b'' = [mkToken IDENTIFIER ''b'' 1 3, mkToken EOF_TOKEN [] 1 3]
   \<and> tok_type (last (tokenize ''@!b'')) = EOF_TOKEN"
proof -
  have u: "unrecognised (CHR ''@'')"
    by (simp add: unrecognised_def isspace_def isdigit_def isalpha_def)
  have p: "peekChar (''!b'', 1, 1) \<noteq> CHR ''=''"
    by simp
  have "tokenize ''@!b'' = tokenizeLoop (''!b'', 1, 1)"
    using tokenize_total_EOF_discards [of "''@!b''"] u by (simp add: tokenize_def)
  also have "\<dots> = tokenizeLoop (''b'', 1, 2)"
    using tokenize_total_EOF_discards [of "''@!b''"] p by simp
  also have "\<dots> = [mkToken IDENTIFIER ''b'' 1 3, mkToken EOF_TOKEN [] 1 3]"
    by code_simp
  finally have t: "tokenize ''@!b'' = [mkToken IDENTIFIER ''b'' 1 3, mkToken EOF_TOKEN [] 1 3]" .
  show ?thesis
    using u p t by (simp add: mkToken_def)
qed



text \<open>
  C9. When the two operands of \<^verbatim>\<open>+\<close> evaluate to lists, the result is the list of the
  elements of the first followed by those of the second; its length is the sum of the two
  lengths. The operation changes nothing: the state behind it is the state behind the
  evaluation of the operands, and when the operands are variables the state is the one
  before, so both variables still hold their lists.
\<close>

theorem list_concatenation:
  assumes "evaluateExpression fmt depth st l = (Inr (VList xs), st1)"
    and "evaluateExpression fmt depth st1 r = (Inr (VList ys), st2)"
  shows "evaluateExpression fmt depth st (BinaryExpr l PLUS r) = (Inr (VList (xs @ ys)), st2)
       \<and> length (xs @ ys) = length xs + length ys
       \<and> (\<forall>a b. l = IdentifierExpr a \<and> r = IdentifierExpr b \<longrightarrow>
             st2 = st \<and> variables st2 a = Some (VList xs) \<and> variables st2 b = Some (VList ys))"
proof (intro conjI allI impI)
  show "evaluateExpression fmt depth st (BinaryExpr l PLUS r) = (Inr (VList (xs @ ys)), st2)"
    using assms by (simp add: binaryOperation_def is_string_def is_list_def)
next
  show "length (xs @ ys) = length xs + length ys"
    by simp
next
  fix a b
  assume "l = IdentifierExpr a \<and> r = IdentifierExpr b"
  then have "st1 = st \<and> st2 = st1 \<and> evaluateIdentifier st a = VList xs
      \<and> evaluateIdentifier st1 b = VList ys"
    using assms by auto
  then show "st2 = st" and "variables st2 a = Some (VList xs)"
    and "variables st2 b = Some (VList ys)"
    by (auto simp: evaluateIdentifier_def split: option.splits)
qed

theorem list_concatenation_witness:
  "evaluateExpression fmt0 0
     (executor0\<lparr>variables := [''a'' \<mapsto> VList [VNumber (Fin 1), VNumber (Fin 2)],
                                ''b'' \<mapsto> VList [VNumber (Fin 3)]]\<rparr>)
     (BinaryExpr (IdentifierExpr ''a'') PLUS (IdentifierExpr ''b''))
   = (Inr (VList [VNumber (Fin 1), VNumber (Fin 2), VNumber (Fin 3)]),
      executor0\<lparr>variables := [''a'' \<mapsto> VList [VNumber (Fin 1), VNumber (Fin 2)],
                                ''b'' \<mapsto> VList [VNumber (Fin 3)]]\<rparr>)"
proof -
  let ?st = "executor0\<lparr>variables := [''a'' \<mapsto> VList [VNumber (Fin 1), VNumber (Fin 2)],
                                ''b'' \<mapsto> VList [VNumber (Fin 3)]]\<rparr>"
  have a: "evaluateExpression fmt0 0 ?st (IdentifierExpr ''a'')
           = (Inr (VList [VNumber (Fin 1), VNumber (Fin 2)]), ?st)"
    by (simp add: evaluateIdentifier_def)
  have b: "evaluateExpression fmt0 0 ?st (IdentifierExpr ''b'') = (Inr (VList [VNumber (Fin 3)]), ?st)"
    by (simp add: evaluateIdentifier_def)
  show ?thesis
    using list_concatenation [OF a b] by simp
qed



text \<open>
  C10. A call is compared with the names of the built-in functions before the variables are
  looked at: a variable \<^verbatim>\<open>len\<close> that holds a file handle, called without arguments, gives the
  number 0 of the built-in \<^verbatim>\<open>len\<close>, not \<^verbatim>\<open>None\<close>.
\<close>

theorem builtin_before_file_handle:
  "evaluateCall fmt0 0 (executor0\<lparr>variables := [''len'' \<mapsto> file0]\<rparr>) (IdentifierExpr ''len'') []
     = (Inr (VNumber (Fin 0)), executor0\<lparr>variables := [''len'' \<mapsto> file0]\<rparr>)"
  by (simp add: evaluateCall.simps)

text \<open>
  C10, amended. A call of an identifier that is not the name of a built-in function and that
  is bound to a file handle returns \<^verbatim>\<open>None\<close> when it has no argument, when the value of its
  first argument is as a string none of \<^verbatim>\<open>read\<close>, \<^verbatim>\<open>write\<close>, \<^verbatim>\<open>close\<close>, and when it is
  \<^verbatim>\<open>write\<close> and there is no second argument. The state is then the one that the evaluation
  of the first argument left: the call itself touches neither the files nor the variables.
  Whatever the method, when the arguments it evaluates have values the call does not raise
  the fault of a function that is not defined.
\<close>

theorem file_handle_call_default:
  assumes "funcName \<notin> set builtin_names"
    and "variables st funcName = Some (VFile filename mode is_binary is_open)"
  shows "evaluateCall fmt depth st (IdentifierExpr funcName) [] = (Inr VNone, st)
       \<and> (\<forall>a rest methodValue st1.
            evaluateExpression fmt depth st a = (Inr methodValue, st1)
            \<and> (toString fmt methodValue \<notin> {''read'', ''write'', ''close''}
               \<or> toString fmt methodValue = ''write'' \<and> rest = []) \<longrightarrow>
            evaluateCall fmt depth st (IdentifierExpr funcName) (a # rest) = (Inr VNone, st1))
       \<and> (\<forall>a rest methodValue st1.
            evaluateExpression fmt depth st a = (Inr methodValue, st1)
            \<and> (rest = [] \<or> (\<exists>dataValue st2.
                  evaluateExpression fmt depth st1 (hd rest) = (Inr dataValue, st2))) \<longrightarrow>
            fst (evaluateCall fmt depth st (IdentifierExpr funcName) (a # rest))
              \<noteq> Inl (Raised (''Function '' @ funcName @ '' is not defined'')))"
proof (intro conjI allI impI)
  have n: "funcName \<noteq> ''str''" "funcName \<noteq> ''repr''" "funcName \<noteq> ''int''"
    "funcName \<noteq> ''float''" "funcName \<noteq> ''bool''" "funcName \<noteq> ''len''"
    "funcName \<noteq> ''input''" "funcName \<noteq> ''print''" "funcName \<noteq> ''open''"
    "funcName \<noteq> ''eval''" "funcName \<noteq> ''exec''"
    using assms(1) by (auto simp: builtin_names_def)
  show "evaluateCall fmt depth st (IdentifierExpr funcName) [] = (Inr VNone, st)"
    by (subst evaluateCall.simps) (simp add: n assms(2))
  {
    fix a and rest :: "expr list" and methodValue st1
    assume h: "evaluateExpression fmt depth st a = (Inr methodValue, st1)
            \<and> (toString fmt methodValue \<notin> {''read'', ''write'', ''close''}
               \<or> toString fmt methodValue = ''write'' \<and> rest = [])"
    then show "evaluateCall fmt depth st (IdentifierExpr funcName) (a # rest) = (Inr VNone, st1)"
      by (subst evaluateCall.simps) (auto simp: n assms(2))
  }
  {
    fix a and rest :: "expr list" and methodValue st1
    assume h: "evaluateExpression fmt depth st a = (Inr methodValue, st1)
            \<and> (rest = [] \<or> (\<exists>dataValue st2.
                  evaluateExpression fmt depth st1 (hd rest) = (Inr dataValue, st2)))"
    show "fst (evaluateCall fmt depth st (IdentifierExpr funcName) (a # rest))
              \<noteq> Inl (Raised (''Function '' @ funcName @ '' is not defined''))"
    proof (cases "rest = []")
      case True
      then show ?thesis
        using h
        by (subst evaluateCall.simps)
           (simp add: n assms(2) evaluateFileRead_def not_undefined_function
              split: option.splits Value.splits)
    next
      case False
      then obtain dataValue st2 where
        d: "evaluateExpression fmt depth st1 (hd rest) = (Inr dataValue, st2)"
        using h by blast
      show ?thesis
        using h d
        by (subst evaluateCall.simps)
           (simp add: n assms(2) evaluateFileRead_def evaluateFileWrite_def not_undefined_function
              split: option.splits Value.splits)
    qed
  }
qed

theorem file_handle_call_default_witness:
  "evaluateCall fmt0 0 (executor0\<lparr>variables := [''fh'' \<mapsto> file0]\<rparr>) (IdentifierExpr ''fh'') []
     = (Inr VNone, executor0\<lparr>variables := [''fh'' \<mapsto> file0]\<rparr>)
   \<and> evaluateCall fmt0 0 (executor0\<lparr>variables := [''fh'' \<mapsto> file0]\<rparr>) (IdentifierExpr ''fh'')
       [LiteralExpr ''flush'' STRING]
     = (Inr VNone, executor0\<lparr>variables := [''fh'' \<mapsto> file0]\<rparr>)
   \<and> evaluateCall fmt0 0 (executor0\<lparr>variables := [''fh'' \<mapsto> file0]\<rparr>) (IdentifierExpr ''fh'')
       [LiteralExpr ''write'' STRING]
     = (Inr VNone, executor0\<lparr>variables := [''fh'' \<mapsto> file0]\<rparr>)
   \<and> fst (evaluateCall fmt0 0 (executor0\<lparr>variables := [''fh'' \<mapsto> file0]\<rparr>) (IdentifierExpr ''fh'')
       [LiteralExpr ''read'' STRING])
     \<noteq> Inl (Raised ''Function fh is not defined'')"
proof -
  let ?st = "executor0\<lparr>variables := [''fh'' \<mapsto> file0]\<rparr>"
  have a: "''fh'' \<notin> set builtin_names"
    by (simp add: builtin_names_def)
  have b: "variables ?st ''fh'' = Some (VFile ''f.txt'' ''w'' False True)"
    by (simp add: file0_def)
  have c: "evaluateExpression fmt0 0 ?st (LiteralExpr ''flush'' STRING) = (Inr (VString ''flush''), ?st)
           \<and> (toString fmt0 (VString ''flush'') \<notin> {''read'', ''write'', ''close''}
               \<or> toString fmt0 (VString ''flush'') = ''write'' \<and> [] = ([] :: expr list))"
    by (simp add: evaluateLiteral_def)
  have d: "evaluateExpression fmt0 0 ?st (LiteralExpr ''write'' STRING) = (Inr (VString ''write''), ?st)
           \<and> (toString fmt0 (VString ''write'') \<notin> {''read'', ''write'', ''close''}
               \<or> toString fmt0 (VString ''write'') = ''write'' \<and> [] = ([] :: expr list))"
    by (simp add: evaluateLiteral_def)
  have e: "evaluateExpression fmt0 0 ?st (LiteralExpr ''read'' STRING) = (Inr (VString ''read''), ?st)
           \<and> ([] = ([] :: expr list) \<or> (\<exists>dataValue st2.
                  evaluateExpression fmt0 0 ?st (hd []) = (Inr dataValue, st2)))"
    by (simp add: evaluateLiteral_def)
  note t = file_handle_call_default [OF a b, of fmt0 0]
  show ?thesis
    using t [THEN conjunct1] t [THEN conjunct2, THEN conjunct1, rule_format, OF c]
      t [THEN conjunct2, THEN conjunct1, rule_format, OF d]
      t [THEN conjunct2, THEN conjunct2, rule_format, OF e]
    by simp
qed


text \<open>
  C7. The call \<^verbatim>\<open>eval("2 + 3 * 4")\<close> gives the number 14 in every state and leaves the state as
  it is. The text is not made of digits and points only, so it is tokenized and parsed as one
  expression, whose product is the right operand of the sum; that expression is evaluated in
  the current state. The last part is the program text of the call, parsed.
\<close>

theorem eval_2_plus_3_times_4:
  "evaluateExpression fmt (Suc depth) st
     (CallExpr (IdentifierExpr ''eval'') [LiteralExpr ''2 + 3 * 4'' STRING])
     = (Inr (VNumber (Fin 14)), st)
   \<and> \<not> list_all (\<lambda>c. isdigit c \<or> c = CHR ''.'') ''2 + 3 * 4''
   \<and> parseExpressionPublic (tokenize ''2 + 3 * 4'') =
       Inr (BinaryExpr (LiteralExpr ''2'' NUMBER) PLUS
              (BinaryExpr (LiteralExpr ''3'' NUMBER) MULTIPLY (LiteralExpr ''4'' NUMBER)),
            [mkToken EOF_TOKEN [] 1 9])
   \<and> parse (tokenize (''eval('' @ [dquote] @ ''2 + 3 * 4'' @ [dquote] @ '')'')) =
       [ExprStmt (CallExpr (IdentifierExpr ''eval'') [LiteralExpr ''2 + 3 * 4'' STRING])]"
proof (intro conjI)
  have d: "\<not> list_all (\<lambda>c. isdigit c \<or> c = CHR ''.'') ''2 + 3 * 4''"
    by (simp add: isdigit_def)
  then show "\<not> list_all (\<lambda>c. isdigit c \<or> c = CHR ''.'') ''2 + 3 * 4''" .
  show "evaluateExpression fmt (Suc depth) st
     (CallExpr (IdentifierExpr ''eval'') [LiteralExpr ''2 + 3 * 4'' STRING])
     = (Inr (VNumber (Fin 14)), st)"
    by (simp add: evaluateCall.simps evaluateLiteral_def parse_2_3_4 isdigit_def stod_2_3_4
        binaryOperation_def is_string_def is_list_def arithmetic_2_3_4)
  show "parseExpressionPublic (tokenize ''2 + 3 * 4'') =
       Inr (BinaryExpr (LiteralExpr ''2'' NUMBER) PLUS
              (BinaryExpr (LiteralExpr ''3'' NUMBER) MULTIPLY (LiteralExpr ''4'' NUMBER)),
            [mkToken EOF_TOKEN [] 1 9])"
    by (rule parse_2_3_4)
  show "parse (tokenize (''eval('' @ [dquote] @ ''2 + 3 * 4'' @ [dquote] @ '')'')) =
       [ExprStmt (CallExpr (IdentifierExpr ''eval'') [LiteralExpr ''2 + 3 * 4'' STRING])]"
    by (rule parse_eval_call)
qed

text \<open>
  C8. The template \<^verbatim>\<open>sum={x+y}\<close>, where \<^verbatim>\<open>x\<close> is the number 2 and \<^verbatim>\<open>y\<close> the number 3, gives
  the string \<^verbatim>\<open>sum=5\<close>. A brace region whose text without its spaces is a name (letters,
  digits and underscores, not digits and points alone) that no variable has is written out
  as the name between braces, and the template goes on behind the region.
\<close>

theorem fstring_sum_and_unbound_name:
  "evaluateFString fmt [''x'' \<mapsto> VNumber (Fin 2), ''y'' \<mapsto> VNumber (Fin 3)] ''sum={x+y}''
     = VString ''sum=5''
   \<and> (\<forall>variables raw rest.
        strip_spaces raw \<noteq> []
        \<and> list_all (\<lambda>c. isalnum c \<or> c = CHR ''_'') (strip_spaces raw)
        \<and> \<not> list_all (\<lambda>c. isdigit c \<or> c = CHR ''.'') (strip_spaces raw)
        \<and> variables (strip_spaces raw) = None \<longrightarrow>
        evaluateFStringLoop fmt variables (''{'' @ raw @ ''}'' @ rest)
          = ''{'' @ strip_spaces raw @ ''}'' @ evaluateFStringLoop fmt variables rest)"
proof (intro conjI allI impI)
  show "evaluateFString fmt [''x'' \<mapsto> VNumber (Fin 2), ''y'' \<mapsto> VNumber (Fin 3)] ''sum={x+y}''
     = VString ''sum=5''"
    by (rule sum_x_y)
next
  fix variables :: "string \<rightharpoonup> Value" and raw rest :: string
  assume h: "strip_spaces raw \<noteq> []
        \<and> list_all (\<lambda>c. isalnum c \<or> c = CHR ''_'') (strip_spaces raw)
        \<and> \<not> list_all (\<lambda>c. isdigit c \<or> c = CHR ''.'') (strip_spaces raw)
        \<and> variables (strip_spaces raw) = None"
  then have "matchBrace (Suc 0) (raw @ CHR ''}'' # rest) = Some (raw, rest)"
    using name_has_no_brace [of raw] by (simp add: matchBrace_region)
  moreover have "parseAndEvaluateSimpleExpression fmt variables raw
                 = VString (''{'' @ strip_spaces raw @ ''}'')"
    using h by (subst parseAndEvaluateSimpleExpression.simps) (simp add: Let_def)
  ultimately show "evaluateFStringLoop fmt variables (''{'' @ raw @ ''}'' @ rest)
          = ''{'' @ strip_spaces raw @ ''}'' @ evaluateFStringLoop fmt variables rest"
    by (simp add: evaluateFStringLoop.simps)
qed

theorem fstring_sum_and_unbound_name_witness:
  "evaluateFString fmt0 Map.empty ''a{ total }b'' = VString ''a{total}b''"
proof -
  have h: "strip_spaces '' total '' \<noteq> []
        \<and> list_all (\<lambda>c. isalnum c \<or> c = CHR ''_'') (strip_spaces '' total '')
        \<and> \<not> list_all (\<lambda>c. isdigit c \<or> c = CHR ''.'') (strip_spaces '' total '')
        \<and> Map.empty (strip_spaces '' total '') = (None :: Value option)"
    by (simp add: strip_spaces_def isspace_def isalnum_def isalpha_def isdigit_def)
  have s: "strip_spaces '' total '' = ''total''"
    by (simp add: strip_spaces_def isspace_def)
  have b: "evaluateFStringLoop fmt0 Map.empty ''b'' = ''b''"
    by (simp add: evaluateFStringLoop.simps)
  have "evaluateFStringLoop fmt0 Map.empty (''{'' @ '' total '' @ ''}'' @ ''b'')
          = ''{'' @ strip_spaces '' total '' @ ''}'' @ evaluateFStringLoop fmt0 Map.empty ''b''"
    using fstring_sum_and_unbound_name [of fmt0, THEN conjunct2, rule_format, OF h] .
  then have "evaluateFStringLoop fmt0 Map.empty ''{ total }b'' = ''{total}b''"
    by (simp add: s b)
  then show ?thesis
    by (simp add: evaluateFString_def evaluateFStringLoop.simps(2) [of _ _ "CHR ''a''"])
qed




end
